theory Spec2Isabelle
  imports Main "HOL-Library.Sublist"
begin

section \<open>Strings and regular expressions of \<^verbatim>\<open>core.py\<close>\<close>

text \<open>
  A Python \<^verbatim>\<open>str\<close> is a sequence of Unicode code points: a list of natural numbers.
  \<open>str\<close> gives the code points of a literal written in ASCII.
\<close>

type_synonym pystr = "nat list"

definition str :: "string \<Rightarrow> pystr" where
  "str s = map of_char s"

text \<open>
  The three patterns of \<^verbatim>\<open>core.py\<close> are used through \<^verbatim>\<open>re.match\<close>, which anchors the
  match at the first character. Each regular-expression construct is a function from a
  continuation (what the rest of the pattern accepts) to a predicate on the remaining
  input, so a pattern is the composition of its constructs in the order they are written
  and the match succeeds when some way of splitting the input is accepted, as it does
  for a backtracking matcher.
\<close>

definition NEWLINE :: nat where
  "NEWLINE = 0x0A"

text \<open>\<^verbatim>\<open>$\<close> without \<^verbatim>\<open>re.MULTILINE\<close>: at the end of the input, or just before a newline that
  is the last character of the input.\<close>

definition at_end :: "pystr \<Rightarrow> bool" where
  "at_end s \<longleftrightarrow> s = [] \<or> s = [NEWLINE]"

text \<open>\<^verbatim>\<open>.*\<close> without \<^verbatim>\<open>re.DOTALL\<close>: any number of characters other than the newline.\<close>

fun dot_star :: "(pystr \<Rightarrow> bool) \<Rightarrow> pystr \<Rightarrow> bool" where
  "dot_star k [] = k []"
| "dot_star k (c # cs) = (k (c # cs) \<or> (c \<noteq> NEWLINE \<and> dot_star k cs))"

text \<open>The lower-case form of the letters \<^verbatim>\<open>A\<close> to \<^verbatim>\<open>Z\<close>; every other code point is left
  as it is.\<close>

definition ascii_lower :: "nat \<Rightarrow> nat" where
  "ascii_lower c = (if 0x41 \<le> c \<and> c \<le> 0x5A then c + 0x20 else c)"

text \<open>
  A pattern character \<open>p\<close> of the ASCII range against an input character \<open>c\<close> under
  \<^verbatim>\<open>re.IGNORECASE\<close> on a \<^verbatim>\<open>str\<close> pattern (Python 3.10 and later, which the \<^verbatim>\<open>match\<close>
  statement of \<^verbatim>\<open>core.py\<close> requires). The matcher compares the Unicode lower-case form of
  \<open>c\<close> with that of \<open>p\<close> and with the characters the \<^verbatim>\<open>re\<close> module holds equivalent to
  it. Over an ASCII \<open>p\<close> this accepts the two cases of the letter, and beside them only:
  for \<^verbatim>\<open>i\<close> the code points U+0130 (capital I with dot, whose lower-case form is \<^verbatim>\<open>i\<close>)
  and U+0131 (dotless i, equivalent to \<^verbatim>\<open>i\<close>); for \<^verbatim>\<open>s\<close> the code point U+017F (long s,
  equivalent to \<^verbatim>\<open>s\<close>); for \<^verbatim>\<open>k\<close> the code point U+212A (Kelvin sign, whose lower-case
  form is \<^verbatim>\<open>k\<close>). A character that is not a letter matches itself only.
\<close>

definition ignorecase_matches :: "nat \<Rightarrow> nat \<Rightarrow> bool" where
  "ignorecase_matches p c \<longleftrightarrow>
     ascii_lower c = ascii_lower p
     \<or> (ascii_lower p = of_char (CHR ''i'') \<and> (c = 0x130 \<or> c = 0x131))
     \<or> (ascii_lower p = of_char (CHR ''s'') \<and> c = 0x17F)
     \<or> (ascii_lower p = of_char (CHR ''k'') \<and> c = 0x212A)"

text \<open>One pattern character against one input character; \<open>ic\<close> is \<^verbatim>\<open>re.IGNORECASE\<close>.\<close>

definition char_matches :: "bool \<Rightarrow> nat \<Rightarrow> nat \<Rightarrow> bool" where
  "char_matches ic p c = (if ic then ignorecase_matches p c else c = p)"

fun literal :: "bool \<Rightarrow> pystr \<Rightarrow> (pystr \<Rightarrow> bool) \<Rightarrow> pystr \<Rightarrow> bool" where
  "literal ic [] k s = k s"
| "literal ic (p # ps) k [] = False"
| "literal ic (p # ps) k (c # cs) = (char_matches ic p c \<and> literal ic ps k cs)"

text \<open>\<^verbatim>\<open>(?:a|b|...)\<close> and \<^verbatim>\<open>x?\<close>.\<close>

definition alternation ::
  "((pystr \<Rightarrow> bool) \<Rightarrow> pystr \<Rightarrow> bool) list \<Rightarrow> (pystr \<Rightarrow> bool) \<Rightarrow> pystr \<Rightarrow> bool" where
  "alternation rs k s = list_ex (\<lambda>r. r k s) rs"

definition optional ::
  "((pystr \<Rightarrow> bool) \<Rightarrow> pystr \<Rightarrow> bool) \<Rightarrow> (pystr \<Rightarrow> bool) \<Rightarrow> pystr \<Rightarrow> bool" where
  "optional r k s = (r k s \<or> k s)"

text \<open>
  \<^verbatim>\<open>EXTENSION_PATTERN = (r"^.*\.(?:cpp|cc|c\+\+|cxx|cppm|ccm|cxxm|c\+\+m|c|cl|h|hh|hpp"
                       r"|hxx|m|mm|inc|js|ts|proto|protodevel|java|cs|json|s?vh?)$")\<close>,
  as used by \<^verbatim>\<open>re.match(EXTENSION_PATTERN, f.filename, re.IGNORECASE)\<close>.
\<close>

definition EXTENSION_LITERALS :: "pystr list" where
  "EXTENSION_LITERALS =
     map str
       [''cpp'', ''cc'', ''c++'', ''cxx'', ''cppm'', ''ccm'', ''cxxm'', ''c++m'', ''c'', ''cl'',
        ''h'', ''hh'', ''hpp'', ''hxx'', ''m'', ''mm'', ''inc'', ''js'', ''ts'', ''proto'',
        ''protodevel'', ''java'', ''cs'', ''json'']"

definition EXTENSION_PATTERN :: "pystr \<Rightarrow> bool" where
  "EXTENSION_PATTERN =
     dot_star (literal True (str ''.'')
       (alternation
          (map (literal True) EXTENSION_LITERALS @
           [optional (literal True (str ''s'')) \<circ> literal True (str ''v'')
              \<circ> optional (literal True (str ''h''))])
          at_end))"

text \<open>
  \<^verbatim>\<open>_CLASS_DECLARATION_PATTERN = re.compile('^(?:class|struct) .*;$')\<close> and
  \<^verbatim>\<open>_CLASS_DEFINITION_START_PATTERN = re.compile('^(?:class|struct) .*$')\<close>, both used
  through \<^verbatim>\<open>.match(line)\<close>.
\<close>

definition CLASS_DECLARATION_PATTERN :: "pystr \<Rightarrow> bool" where
  "CLASS_DECLARATION_PATTERN =
     alternation [literal False (str ''class''), literal False (str ''struct'')]
       (literal False (str '' '') (dot_star (literal False (str '';'') at_end)))"

definition CLASS_DEFINITION_START_PATTERN :: "pystr \<Rightarrow> bool" where
  "CLASS_DEFINITION_START_PATTERN =
     alternation [literal False (str ''class''), literal False (str ''struct'')]
       (literal False (str '' '') (dot_star at_end))"


section \<open>The class-region detector\<close>

text \<open>
  \<^verbatim>\<open>get_class_lines_in_file\<close> keeps three variables over its loop: the list
  \<^verbatim>\<open>skip_lines\<close>, the flag \<^verbatim>\<open>in_class\<close> and the brace depth \<^verbatim>\<open>level\<close>, a Python
  integer that may become negative.
\<close>

record scan_state =
  skip_lines :: "int list"
  in_class :: bool
  level :: int

text \<open>\<^verbatim>\<open>level += line.count('{'); level -= line.count('}')\<close>\<close>

definition update_level :: "pystr \<Rightarrow> int \<Rightarrow> int" where
  "update_level line lv =
     lv + int (count_list line (of_char (CHR ''{''))) - int (count_list line (of_char (CHR ''}'')))"

text \<open>One iteration of the loop, on the pair that \<^verbatim>\<open>enumerate\<close> yields.\<close>

definition scan_line :: "scan_state \<Rightarrow> int \<times> pystr \<Rightarrow> scan_state" where
  "scan_line st p =
     (case p of (lineno, line) \<Rightarrow>
        if \<not> in_class st then
          if CLASS_DECLARATION_PATTERN line then st
          else if CLASS_DEFINITION_START_PATTERN line then
            st\<lparr>in_class := True, level := update_level line (level st)\<rparr>
          else st
        else
          let st' = st\<lparr>level := update_level line (level st)\<rparr>
          in if level st' = 0 then st'\<lparr>in_class := False\<rparr>
             else st'\<lparr>skip_lines := skip_lines st' @ [lineno]\<rparr>)"

text \<open>\<^verbatim>\<open>enumerate(contents, start=n)\<close>\<close>

fun enumerate_from :: "int \<Rightarrow> 'a list \<Rightarrow> (int \<times> 'a) list" where
  "enumerate_from n [] = []"
| "enumerate_from n (x # xs) = (n, x) # enumerate_from (n + 1) xs"

definition scan_start :: scan_state where
  "scan_start = \<lparr>skip_lines = [], in_class = False, level = 0\<rparr>"

definition get_class_lines_in_file :: "pystr list \<Rightarrow> int list" where
  "get_class_lines_in_file contents =
     (if length contents = 0 then []
      else skip_lines (foldl scan_line scan_start (enumerate_from 1 contents)))"

text \<open>
  The detector as the specification words it, for comparison with the loop above: a scan
  over the numbered lines that carries the flag and the depth and returns the numbers it
  flags. \<open>claimed_scan\<close> opens a class region at every line that matches
  \<^verbatim>\<open>^(class|struct) .*$\<close> outside a class; \<open>amended_scan\<close> does so only when the line does
  not also match \<^verbatim>\<open>^(class|struct) .*;$\<close>.
\<close>

fun claimed_scan :: "int \<Rightarrow> bool \<Rightarrow> int \<Rightarrow> pystr list \<Rightarrow> int list" where
  "claimed_scan lineno inside lv [] = []"
| "claimed_scan lineno inside lv (line # rest) =
     (if inside then
        (if update_level line lv = 0 then claimed_scan (lineno + 1) False 0 rest
         else lineno # claimed_scan (lineno + 1) True (update_level line lv) rest)
      else if CLASS_DEFINITION_START_PATTERN line then
        claimed_scan (lineno + 1) True (update_level line lv) rest
      else claimed_scan (lineno + 1) False lv rest)"

fun amended_scan :: "int \<Rightarrow> bool \<Rightarrow> int \<Rightarrow> pystr list \<Rightarrow> int list" where
  "amended_scan lineno inside lv [] = []"
| "amended_scan lineno inside lv (line # rest) =
     (if inside then
        (if update_level line lv = 0 then amended_scan (lineno + 1) False 0 rest
         else lineno # amended_scan (lineno + 1) True (update_level line lv) rest)
      else if CLASS_DEFINITION_START_PATTERN line \<and> \<not> CLASS_DECLARATION_PATTERN line then
        amended_scan (lineno + 1) True (update_level line lv) rest
      else amended_scan (lineno + 1) False lv rest)"


section \<open>Data model\<close>

text \<open>
  Modelled from the spec: the classes of \<^verbatim>\<open>models.py\<close> are not among the sources. The
  records below carry the fields that the specification's data model lists and that
  \<^verbatim>\<open>core.py\<close> reads and writes. Line numbers are Python integers; file names, lines of
  contents and messages are Python strings. The fields \<^verbatim>\<open>start\<close> and \<^verbatim>\<open>end\<close> of a range and of a segment are \<open>range_start\<close>, \<open>range_end\<close>,
  \<open>seg_start\<close> and \<open>seg_end\<close>; the field \<^verbatim>\<open>range\<close> of a comment is \<open>comment_range\<close> and
  the field \<^verbatim>\<open>message\<close> of the review is \<open>review_message\<close>.
\<close>

record LineRange =
  range_start :: int
  range_end :: int

datatype ReformatType = INSERTION | MODIFICATION | DELETION

record ReformatSegment =
  seg_start :: int
  seg_end :: int
  reformat_type :: ReformatType
  formatted_content :: "pystr list"

record FileChange =
  filename :: pystr
  base_contents :: "pystr list option"
  patch_contents :: "pystr list option"
  patch_segments :: "LineRange list"
  formatted_contents :: "pystr list option"
  format_segments :: "ReformatSegment list"

record Change =
  files :: "FileChange list"

record CommentRange =
  start_line :: int
  start_character :: int
  end_line :: int
  end_character :: int

record CommentInput =
  message :: pystr
  comment_range :: CommentRange

datatype NotifyEnum = NONE | OWNER | OWNER_REVIEWERS | ALL

text \<open>The dictionaries \<^verbatim>\<open>comments\<close> and \<^verbatim>\<open>labels\<close> are association lists in insertion
  order, as a Python \<^verbatim>\<open>dict\<close> keeps its keys.\<close>

record ReviewInput =
  review_message :: pystr
  comments :: "(pystr \<times> CommentInput list) list"
  labels :: "(pystr \<times> int) list"
  notify :: NotifyEnum

text \<open>
  What the logger receives. A record keeps the arguments of the message rather than the
  rendered text: the warning renders a Python \<^verbatim>\<open>set\<close>, whose printing order is not fixed.
\<close>

datatype log_record =
    Info_Ignoring pystr
  | Info_Skipping_Deleted pystr
  | Info_Skipping_Only_Deletions pystr
  | Info_No_Reformats pystr
  | Info_Segments_Reformatted pystr nat
  | Warning_Class_Workaround pystr "int set"

datatype py_error = TypeError | UnboundLocalError


section \<open>The comment mapper\<close>

text \<open>\<^verbatim>\<open>comments.setdefault(key, []).extend(values)\<close>\<close>

fun setdefault_extend :: "'k \<Rightarrow> 'v list \<Rightarrow> ('k \<times> 'v list) list \<Rightarrow> ('k \<times> 'v list) list" where
  "setdefault_extend key values [] = [(key, [] @ values)]"
| "setdefault_extend key values ((k, vs) # rest) =
     (if k = key then (k, vs @ values) # rest
      else (k, vs) # setdefault_extend key values rest)"

definition DELETION_MESSAGE :: pystr where
  "DELETION_MESSAGE = str ''Suggestion from `haiku-format` is to remove this line/these lines.''"

text \<open>\<^verbatim>\<open>"Suggestion from `haiku-format` (%s):\n```c++\n%s```"
    % (operation, "".join(segment.formatted_content))\<close>\<close>

definition suggestion_message :: "pystr \<Rightarrow> pystr list \<Rightarrow> pystr" where
  "suggestion_message op content =
     str ''Suggestion from `haiku-format` ('' @ op @ str ''):'' @ [NEWLINE] @
     str ''```c++'' @ [NEWLINE] @ concat content @ str ''```''"

text \<open>
  The variables that live across the iterations of the two nested loops of
  \<^verbatim>\<open>_change_to_review_input\<close>: the dictionary \<^verbatim>\<open>comments\<close>, the local \<^verbatim>\<open>operation\<close>
  (unbound until a branch of the \<^verbatim>\<open>match\<close> statement assigns it) and what was logged.
\<close>

record mapper_state =
  comments_dict :: "(pystr \<times> CommentInput list) list"
  operation :: "pystr option"
  logged :: "log_record list"

text \<open>
  The body of the inner loop (lines 84 to 111) for one segment. The \<^verbatim>\<open>match\<close> statement
  has no branch for a deletion, which leaves \<^verbatim>\<open>end\<close> and \<^verbatim>\<open>operation\<close> as they are;
  reading \<^verbatim>\<open>operation\<close> while it is unbound raises \<^verbatim>\<open>UnboundLocalError\<close>.
\<close>

definition map_segment ::
  "pystr \<Rightarrow> int set \<Rightarrow> mapper_state \<Rightarrow> ReformatSegment \<Rightarrow> py_error + mapper_state" where
  "map_segment fname skip_lines_set st segment =
     (let (end1, operation1) =
            (case reformat_type segment of
               INSERTION \<Rightarrow> (seg_start segment, Some (str ''insert after''))
             | MODIFICATION \<Rightarrow> (seg_end segment, Some (str ''change''))
             | DELETION \<Rightarrow> (seg_end segment, operation st));
          segment_lines_set = set [seg_start segment .. end1]
      in if card (skip_lines_set \<inter> segment_lines_set) > 0 then
           Inr (st\<lparr>operation := operation1,
                   logged := logged st @ [Warning_Class_Workaround fname segment_lines_set]\<rparr>)
         else
           let range1 = \<lparr>start_line = seg_start segment, start_character = 0,
                         end_line = end1, end_character = 0\<rparr>
           in if reformat_type segment = DELETION then
                Inr (st\<lparr>operation := operation1,
                        comments_dict := setdefault_extend fname
                          [\<lparr>message = DELETION_MESSAGE, comment_range = range1\<rparr>]
                          (comments_dict st)\<rparr>)
              else
                (case operation1 of
                   None \<Rightarrow> Inl UnboundLocalError
                 | Some op \<Rightarrow>
                     Inr (st\<lparr>operation := operation1,
                             comments_dict := setdefault_extend fname
                               [\<lparr>message = suggestion_message op (formatted_content segment),
                                 comment_range = range1\<rparr>]
                               (comments_dict st)\<rparr>)))"

fun map_segments ::
  "pystr \<Rightarrow> int set \<Rightarrow> mapper_state \<Rightarrow> ReformatSegment list \<Rightarrow> py_error + mapper_state" where
  "map_segments fname skip_lines_set st [] = Inr st"
| "map_segments fname skip_lines_set st (segment # rest) =
     (case map_segment fname skip_lines_set st segment of
        Inl e \<Rightarrow> Inl e
      | Inr st' \<Rightarrow> map_segments fname skip_lines_set st' rest)"

text \<open>
  The body of the outer loop (lines 79 to 111) for one file.
  \<^verbatim>\<open>get_class_lines_in_file(None)\<close> raises \<^verbatim>\<open>TypeError\<close> at \<^verbatim>\<open>len(contents)\<close>.
\<close>

definition map_file :: "mapper_state \<Rightarrow> FileChange \<Rightarrow> py_error + mapper_state" where
  "map_file st f =
     (if formatted_contents f = None \<or> length (format_segments f) = 0 then Inr st
      else
        (case patch_contents f of
           None \<Rightarrow> Inl TypeError
         | Some contents \<Rightarrow>
             map_segments (filename f) (set (get_class_lines_in_file contents)) st
               (format_segments f)))"

fun map_files :: "mapper_state \<Rightarrow> FileChange list \<Rightarrow> py_error + mapper_state" where
  "map_files st [] = Inr st"
| "map_files st (f # rest) =
     (case map_file st f of
        Inl e \<Rightarrow> Inl e
      | Inr st' \<Rightarrow> map_files st' rest)"

definition NO_CHANGES_MESSAGE :: pystr where
  "NO_CHANGES_MESSAGE =
     (str ''Experimental `haiku-format` bot: no formatting changes suggested for this commit.'')"

definition CHANGES_MESSAGE :: pystr where
  "CHANGES_MESSAGE =
     str ''Experimental `haiku-format` bot: some formatting changes suggested.'' @ [NEWLINE] @
     str ''Note that this bot is '' @
     str ''experimental and the suggestions may not be correct. There is a known issue with changes '' @
     str ''in header files: `haiku-format` does not yet correctly output the column layout of the contents '' @
     str ''of classes.'' @ [NEWLINE, NEWLINE] @
     str ''You can see and apply the suggestions by running `haiku-format` in your local '' @
     str ''repository. For example, if in your local checkout this change is applied to a local checkout, you '' @
     str ''can use the following command to automatically reformat:'' @ [NEWLINE] @
     str ''```'' @ [NEWLINE] @ str ''git-haiku-format HEAD~'' @ [NEWLINE] @ str ''```''"

definition mapper_start :: mapper_state where
  "mapper_start = \<lparr>comments_dict = [], operation = None, logged = []\<rparr>"

text \<open>\<^verbatim>\<open>_change_to_review_input\<close>: the review and what the logger received.\<close>

definition change_to_review_input ::
  "Change \<Rightarrow> py_error + (ReviewInput \<times> log_record list)" where
  "change_to_review_input change =
     (case map_files mapper_start (files change) of
        Inl e \<Rightarrow> Inl e
      | Inr st \<Rightarrow>
          Inr (if length (comments_dict st) = 0 then
                 \<lparr>review_message = NO_CHANGES_MESSAGE, comments = comments_dict st,
                  labels = [(str ''Haiku-Format'', 1)], notify = OWNER\<rparr>
               else
                 \<lparr>review_message = CHANGES_MESSAGE, comments = comments_dict st,
                  labels = [(str ''Haiku-Format'', - 1)], notify = OWNER\<rparr>,
               logged st))"


section \<open>The reformat orchestrator\<close>

text \<open>
  The loop of \<^verbatim>\<open>reformat_change\<close> over \<^verbatim>\<open>change.files\<close> (lines 36 to 60). The formatter
  \<^verbatim>\<open>run_clang_format\<close> (\<^verbatim>\<open>llvm.py\<close>) and the method \<^verbatim>\<open>format_range\<close> of a patch segment
  (\<^verbatim>\<open>models.py\<close>) are not among the sources and are parameters; the formatter returns
  the formatted lines or \<^verbatim>\<open>None\<close>. Fetching the change and publishing the review are
  outside the loop. The state of the loop is the files as the iterations left them, the
  calls of the formatter so far (contents and target ranges) and what was logged.
\<close>

record 'r orchestration =
  processed :: "FileChange list"
  formatter_calls :: "(pystr list \<times> 'r list) list"
  info_log :: "log_record list"

text \<open>
  Modelled from the spec: the class of the files (\<^verbatim>\<open>models.py\<close>) is not among the sources.
  After \<^verbatim>\<open>f.formatted_contents = reformatted_content\<close> the loop reads
  \<^verbatim>\<open>f.format_segments\<close>; the specification has the orchestrator store the formatted
  contents and, when the formatter returned some, run the segment reducer on the patch
  contents and the formatted contents to populate \<^verbatim>\<open>format_segments\<close>. The reducer is a
  parameter.

  \<open>reformat_file\<close> is the body of the loop for one file: the file as the iteration leaves
  it, the calls of the formatter it made and what it logged.
\<close>

definition reformat_file ::
  "(pystr list \<Rightarrow> 'r list \<Rightarrow> pystr list option) \<Rightarrow> (LineRange \<Rightarrow> 'r) \<Rightarrow>
   (pystr list \<Rightarrow> pystr list \<Rightarrow> ReformatSegment list) \<Rightarrow>
   FileChange \<Rightarrow> FileChange \<times> (pystr list \<times> 'r list) list \<times> log_record list" where
  "reformat_file run_clang_format format_range segment_reducer f =
     (if \<not> EXTENSION_PATTERN (filename f) then (f, [], [Info_Ignoring (filename f)])
      else
        (case patch_contents f of
           None \<Rightarrow> (f, [], [Info_Skipping_Deleted (filename f)])
         | Some contents \<Rightarrow>
             (case (if base_contents f \<noteq> None then
                      (if length (patch_segments f) = 0 then None
                       else Some (map format_range (patch_segments f)))
                    else Some []) of
                None \<Rightarrow> (f, [], [Info_Skipping_Only_Deletions (filename f)])
              | Some segments \<Rightarrow>
                  (case run_clang_format contents segments of
                     None \<Rightarrow>
                       (f\<lparr>formatted_contents := None\<rparr>, [(contents, segments)],
                        [Info_No_Reformats (filename f)])
                   | Some formatted \<Rightarrow>
                       (let f' = f\<lparr>formatted_contents := Some formatted,
                                   format_segments := segment_reducer contents formatted\<rparr>
                        in (f', [(contents, segments)],
                            [Info_Segments_Reformatted (filename f)
                               (length (format_segments f'))]))))))"

definition reformat_step ::
  "(pystr list \<Rightarrow> 'r list \<Rightarrow> pystr list option) \<Rightarrow> (LineRange \<Rightarrow> 'r) \<Rightarrow>
   (pystr list \<Rightarrow> pystr list \<Rightarrow> ReformatSegment list) \<Rightarrow>
   'r orchestration \<Rightarrow> FileChange \<Rightarrow> 'r orchestration" where
  "reformat_step run_clang_format format_range segment_reducer st f =
     (case reformat_file run_clang_format format_range segment_reducer f of
        (f', calls, records) \<Rightarrow>
          st\<lparr>processed := processed st @ [f'],
             formatter_calls := formatter_calls st @ calls,
             info_log := info_log st @ records\<rparr>)"

definition reformat_files ::
  "(pystr list \<Rightarrow> 'r list \<Rightarrow> pystr list option) \<Rightarrow> (LineRange \<Rightarrow> 'r) \<Rightarrow>
   (pystr list \<Rightarrow> pystr list \<Rightarrow> ReformatSegment list) \<Rightarrow>
   FileChange list \<Rightarrow> 'r orchestration" where
  "reformat_files run_clang_format format_range segment_reducer fs =
     foldl (reformat_step run_clang_format format_range segment_reducer)
       \<lparr>processed = [], formatter_calls = [], info_log = []\<rparr> fs"


section \<open>Vocabulary of the specification\<close>

text \<open>
  The words of the specification, defined for the statements below. For the orchestrator:
  the supported extensions as the specification lists them, and the case-insensitive
  suffix match of a file name against them (the name, with \<^verbatim>\<open>A\<close> to \<^verbatim>\<open>Z\<close> in lower case,
  ends in a dot and a listed extension). For the comment mapper: the effective end of
  a segment, its line set, whether it overlaps the skip set, and the comments and the
  warnings that the specification attaches to the segments of a file.
\<close>

definition SUPPORTED_EXTENSIONS :: "pystr list" where
  "SUPPORTED_EXTENSIONS =
     map str
       [''cpp'', ''cc'', ''c++'', ''cxx'', ''cppm'', ''ccm'', ''cxxm'', ''c++m'', ''c'', ''cl'',
        ''h'', ''hh'', ''hpp'', ''hxx'', ''m'', ''mm'', ''inc'', ''js'', ''ts'', ''proto'',
        ''protodevel'', ''java'', ''cs'', ''json'', ''v'', ''vh'', ''sv'', ''svh'']"

definition supported_extension :: "pystr \<Rightarrow> bool" where
  "supported_extension name =
     list_ex (\<lambda>ext. suffix (str ''.'' @ ext) (map ascii_lower name)) SUPPORTED_EXTENSIONS"

definition effective_end :: "ReformatSegment \<Rightarrow> int" where
  "effective_end segment =
     (if reformat_type segment = INSERTION then seg_start segment else seg_end segment)"

definition segment_lines :: "ReformatSegment \<Rightarrow> int set" where
  "segment_lines segment = set [seg_start segment .. effective_end segment]"

definition overlaps_class :: "int set \<Rightarrow> ReformatSegment \<Rightarrow> bool" where
  "overlaps_class skip segment \<longleftrightarrow> skip \<inter> segment_lines segment \<noteq> {}"

definition segment_comment :: "ReformatSegment \<Rightarrow> CommentInput" where
  "segment_comment segment =
     \<lparr>message =
        (case reformat_type segment of
           INSERTION \<Rightarrow> suggestion_message (str ''insert after'') (formatted_content segment)
         | MODIFICATION \<Rightarrow> suggestion_message (str ''change'') (formatted_content segment)
         | DELETION \<Rightarrow> DELETION_MESSAGE),
      comment_range =
        \<lparr>start_line = seg_start segment, start_character = 0,
         end_line = effective_end segment, end_character = 0\<rparr>\<rparr>"

definition add_comment ::
  "(pystr \<times> CommentInput list) list \<Rightarrow> pystr \<times> CommentInput \<Rightarrow>
   (pystr \<times> CommentInput list) list" where
  "add_comment d p = setdefault_extend (fst p) [snd p] d"

definition comments_for :: "(pystr \<times> 'v list) list \<Rightarrow> pystr \<Rightarrow> 'v list" where
  "comments_for d name = (case map_of d name of None \<Rightarrow> [] | Some vs \<Rightarrow> vs)"

definition file_skip_set :: "FileChange \<Rightarrow> int set" where
  "file_skip_set f =
     (case patch_contents f of
        None \<Rightarrow> {}
      | Some contents \<Rightarrow> set (get_class_lines_in_file contents))"

definition file_mapped :: "FileChange \<Rightarrow> bool" where
  "file_mapped f \<longleftrightarrow> formatted_contents f \<noteq> None \<and> format_segments f \<noteq> []"

definition file_comments :: "FileChange \<Rightarrow> (pystr \<times> CommentInput) list" where
  "file_comments f =
     (if file_mapped f then
        map (\<lambda>s. (filename f, segment_comment s))
          (filter (\<lambda>s. \<not> overlaps_class (file_skip_set f) s) (format_segments f))
      else [])"

definition file_warnings :: "FileChange \<Rightarrow> log_record list" where
  "file_warnings f =
     (if file_mapped f then
        map (\<lambda>s. Warning_Class_Workaround (filename f) (segment_lines s))
          (filter (overlaps_class (file_skip_set f)) (format_segments f))
      else [])"


text \<open>Two files for the examples: the struct of the specification's testable properties,
  and a file without a class.\<close>

definition example_file :: FileChange where
  "example_file =
     \<lparr>filename = str ''Foo.h'', base_contents = None,
      patch_contents = Some (map str [''struct Foo {'', ''int x;'', ''};'']),
      patch_segments = [],
      formatted_contents = Some (map str [''struct Foo'', ''{'', ''  int x;'', ''};'']),
      format_segments =
        [\<lparr>seg_start = 2, seg_end = 2, reformat_type = MODIFICATION,
          formatted_content = [str ''  int x;'']\<rparr>,
         \<lparr>seg_start = 1, seg_end = 1, reformat_type = MODIFICATION,
          formatted_content = map str [''struct Foo'', ''{'']\<rparr>]\<rparr>"


definition plain_file :: FileChange where
  "plain_file =
     \<lparr>filename = str ''main.cpp'',
      base_contents = Some (map str [''int a;'', ''int  b;'', ''int c;'']),
      patch_contents =
        Some (map str [''int a;'', '''', ''int  b;'', ''int   c ;'', ''int d;'', ''int e;'']),
      patch_segments = [\<lparr>range_start = 2, range_end = 6\<rparr>],
      formatted_contents =
        Some (map str [''int a;'', ''int b;'', ''int c;'', ''int d;'', '''', ''int e;'']),
      format_segments =
        [\<lparr>seg_start = 2, seg_end = 2, reformat_type = DELETION, formatted_content = []\<rparr>,
         \<lparr>seg_start = 3, seg_end = 4, reformat_type = MODIFICATION,
          formatted_content = map str [''int b;'', ''int c;'']\<rparr>,
         \<lparr>seg_start = 5, seg_end = 5, reformat_type = INSERTION,
          formatted_content = [str '''']\<rparr>]\<rparr>"


text \<open>Files for the orchestrator's examples: new files whose names end in a newline, hold
  the code point U+0130 in the extension, and hold a newline before the extension; a new
  file, a modified file with two patch segments, a file the patch deletes, a file from
  which the patch only removes lines, and a file with an extension outside the list.\<close>

definition newline_file :: FileChange where
  "newline_file =
     \<lparr>filename = (str ''x.c'') @ [NEWLINE], base_contents = None,
      patch_contents = Some [str ''int  x;''], patch_segments = [],
      formatted_contents = None, format_segments = []\<rparr>"

definition dotted_capital_i_file :: FileChange where
  "dotted_capital_i_file =
     \<lparr>filename = str ''a.'' @ [0x130] @ str ''NC'', base_contents = None,
      patch_contents = Some [str ''int  x;''], patch_segments = [],
      formatted_contents = None, format_segments = []\<rparr>"




definition deleted_file :: FileChange where
  "deleted_file =
     \<lparr>filename = str ''old.cpp'', base_contents = Some [str ''int x;''],
      patch_contents = None, patch_segments = [],
      formatted_contents = None, format_segments = []\<rparr>"

definition shortened_file :: FileChange where
  "shortened_file =
     \<lparr>filename = str ''cut.cpp'',
      base_contents = Some (map str [''int x;'', ''int y;'']),
      patch_contents = Some [str ''int x;''], patch_segments = [],
      formatted_contents = None, format_segments = []\<rparr>"

definition script_file :: FileChange where
  "script_file =
     \<lparr>filename = str ''build.sh'', base_contents = None,
      patch_contents = Some [str ''echo  hi''], patch_segments = [],
      formatted_contents = None, format_segments = []\<rparr>"

section \<open>Properties of the class-region detector\<close>

lemma enumerate_from_append:
  "enumerate_from n (xs @ ys) = enumerate_from n xs @ enumerate_from (n + int (length xs)) ys"
  by (induction xs arbitrary: n) (simp_all add: add.assoc)

lemma get_class_lines_fold:
  "get_class_lines_in_file contents =
     skip_lines (foldl scan_line scan_start (enumerate_from 1 contents))"
  by (cases contents) (simp_all add: get_class_lines_in_file_def scan_start_def)

lemma scan_line_keeps_invariant:
  assumes "sorted_wrt (<) (skip_lines st)"
    and "\<forall>x\<in>set (skip_lines st). 2 \<le> x \<and> x < n"
    and "in_class st \<longrightarrow> 2 \<le> n"
  shows "sorted_wrt (<) (skip_lines (scan_line st (n, line)))
       \<and> (\<forall>x\<in>set (skip_lines (scan_line st (n, line))). 2 \<le> x \<and> x < n + 1)"
  using assms by (auto simp: scan_line_def Let_def sorted_wrt_append)

lemma foldl_scan_invariant:
  assumes "sorted_wrt (<) (skip_lines st)"
    and "\<forall>x\<in>set (skip_lines st). 2 \<le> x \<and> x < n"
    and "in_class st \<longrightarrow> 2 \<le> n"
    and "1 \<le> n"
  shows "sorted_wrt (<) (skip_lines (foldl scan_line st (enumerate_from n ls)))
       \<and> (\<forall>x\<in>set (skip_lines (foldl scan_line st (enumerate_from n ls))).
             2 \<le> x \<and> x < n + int (length ls))"
  using assms
proof (induction ls arbitrary: st n)
  case Nil
  then show ?case by simp
next
  case (Cons l ls)
  have step: "sorted_wrt (<) (skip_lines (scan_line st (n, l)))
       \<and> (\<forall>x\<in>set (skip_lines (scan_line st (n, l))). 2 \<le> x \<and> x < n + 1)"
    using Cons.prems(1-3) by (rule scan_line_keeps_invariant)
  have "in_class (scan_line st (n, l)) \<longrightarrow> 2 \<le> n + 1"
    using Cons.prems(4) by simp
  with step Cons.prems(4)
  have "sorted_wrt (<)
          (skip_lines (foldl scan_line (scan_line st (n, l)) (enumerate_from (n + 1) ls)))
       \<and> (\<forall>x\<in>set (skip_lines
                     (foldl scan_line (scan_line st (n, l)) (enumerate_from (n + 1) ls))).
             2 \<le> x \<and> x < n + 1 + int (length ls))"
    by (intro Cons.IH) auto
  then show ?case by (simp add: add.assoc)
qed

lemma scan_line_adds_only_lineno:
  "x \<in> set (skip_lines (scan_line st (n, line))) \<Longrightarrow> x \<in> set (skip_lines st) \<or> x = n"
  by (auto simp: scan_line_def Let_def split: if_splits)

lemma foldl_scan_lines_from:
  "x \<in> set (skip_lines (foldl scan_line st (enumerate_from n ls)))
     \<Longrightarrow> x \<in> set (skip_lines st) \<or> n \<le> x"
proof (induction ls arbitrary: st n)
  case Nil
  then show ?case by simp
next
  case (Cons l ls)
  from Cons.prems
  have "x \<in> set (skip_lines (scan_line st (n, l))) \<or> n + 1 \<le> x"
    using Cons.IH [of "scan_line st (n, l)" "n + 1"] by simp
  then show ?case
    using scan_line_adds_only_lineno [of x st n l] by auto
qed

lemma foldl_scan_amended:
  "skip_lines (foldl scan_line st (enumerate_from n ls)) =
     skip_lines st @ amended_scan n (in_class st) (level st) ls"
proof (induction ls arbitrary: st n)
  case Nil
  then show ?case by simp
next
  case (Cons l ls)
  have "skip_lines (foldl scan_line st (enumerate_from n (l # ls))) =
        skip_lines (scan_line st (n, l)) @
        amended_scan (n + 1) (in_class (scan_line st (n, l))) (level (scan_line st (n, l))) ls"
    by (simp only: enumerate_from.simps foldl.simps Cons.IH)
  also have "\<dots> = skip_lines st @ amended_scan n (in_class st) (level st) (l # ls)"
    by (auto simp: scan_line_def Let_def)
  finally show ?case .
qed

text \<open>
  Claim C10. For every line sequence, \<^verbatim>\<open>get_class_lines_in_file\<close> returns a strictly
  increasing list of line numbers, each at least 2 and at most the number of lines; so
  line 1 is never in the result, no line number appears twice, and the empty input gives
  the empty list.
\<close>

theorem class_lines_increasing_and_bounded:
  "sorted_wrt (<) (get_class_lines_in_file contents)
   \<and> (\<forall>n \<in> set (get_class_lines_in_file contents). 2 \<le> n \<and> n \<le> int (length contents))
   \<and> 1 \<notin> set (get_class_lines_in_file contents)
   \<and> distinct (get_class_lines_in_file contents)
   \<and> get_class_lines_in_file [] = []"
proof -
  let ?r = "get_class_lines_in_file contents"
  have inv: "sorted_wrt (<) ?r \<and> (\<forall>x\<in>set ?r. 2 \<le> x \<and> x < 1 + int (length contents))"
    unfolding get_class_lines_fold
    by (rule foldl_scan_invariant) (simp_all add: scan_start_def)
  have "distinct ?r" using inv strict_sorted_iff by blast
  moreover have "1 \<notin> set ?r" using inv by auto
  moreover have "get_class_lines_in_file [] = []" by (simp add: get_class_lines_in_file_def)
  ultimately show ?thesis using inv by auto
qed

theorem class_lines_increasing_and_bounded_witness:
  "2 \<in> set (get_class_lines_in_file (map str [''struct Foo {'', ''int x;'', ''};'']))
   \<and> (2::int) \<le> int (length (map str [''struct Foo {'', ''int x;'', ''};'']))
   \<and> sorted_wrt (<) (get_class_lines_in_file (map str [''struct Foo {'', ''int x;'', ''};'']))"
proof -
  have m: "2 \<in> set (get_class_lines_in_file (map str [''struct Foo {'', ''int x;'', ''};'']))"
    by code_simp
  show ?thesis
    using m class_lines_increasing_and_bounded [of "map str [''struct Foo {'', ''int x;'', ''};'']"]
    by blast
qed

text \<open>
  Claim C8. A line matching \<^verbatim>\<open>^(class|struct) .*;$\<close> that is met outside a class is skipped
  entirely: the iteration leaves the scan state as it was (nothing is flagged, no class
  region starts), its line number is not in the result of the whole scan, and the
  detector applied to \<^verbatim>\<open>["struct Foo;"]\<close> returns the empty list.
\<close>

theorem declaration_line_skipped:
  assumes "CLASS_DECLARATION_PATTERN line"
  shows "(\<forall>st lineno. \<not> in_class st \<longrightarrow> scan_line st (lineno, line) = st)
   \<and> (\<not> in_class (foldl scan_line scan_start (enumerate_from 1 pre)) \<longrightarrow>
        int (length pre) + 1 \<notin> set (get_class_lines_in_file (pre @ line # post))
        \<and> foldl scan_line scan_start (enumerate_from 1 (pre @ [line])) =
          foldl scan_line scan_start (enumerate_from 1 pre))
   \<and> get_class_lines_in_file [str ''struct Foo;''] = []"
proof -
  have step: "\<not> in_class st \<Longrightarrow> scan_line st (lineno, line) = st" for st lineno
    using assms by (simp add: scan_line_def)
  have run: "int (length pre) + 1 \<notin> set (get_class_lines_in_file (pre @ line # post))
        \<and> foldl scan_line scan_start (enumerate_from 1 (pre @ [line])) =
          foldl scan_line scan_start (enumerate_from 1 pre)"
    if out: "\<not> in_class (foldl scan_line scan_start (enumerate_from 1 pre))"
  proof -
    let ?st = "foldl scan_line scan_start (enumerate_from 1 pre)"
    have before: "\<forall>x\<in>set (skip_lines ?st). 2 \<le> x \<and> x < 1 + int (length pre)"
      using foldl_scan_invariant [of scan_start 1 pre] by (simp add: scan_start_def)
    have whole: "get_class_lines_in_file (pre @ line # post) =
        skip_lines (foldl scan_line ?st (enumerate_from (1 + int (length pre) + 1) post))"
      using step [OF out]
      by (simp add: get_class_lines_fold enumerate_from_append)
    have "int (length pre) + 1 \<notin> set (get_class_lines_in_file (pre @ line # post))"
    proof
      assume "int (length pre) + 1 \<in> set (get_class_lines_in_file (pre @ line # post))"
      then have "int (length pre) + 1 \<in> set (skip_lines ?st)
          \<or> 1 + int (length pre) + 1 \<le> int (length pre) + 1"
        unfolding whole by (rule foldl_scan_lines_from)
      then show False using before by auto
    qed
    moreover have "foldl scan_line scan_start (enumerate_from 1 (pre @ [line])) = ?st"
      using step [OF out] by (simp add: enumerate_from_append)
    ultimately show ?thesis by simp
  qed
  have "get_class_lines_in_file [str ''struct Foo;''] = []"
    by code_simp
  with step run show ?thesis by blast
qed

theorem declaration_line_skipped_witness:
  "CLASS_DECLARATION_PATTERN (str ''struct Foo;'')
   \<and> \<not> in_class (foldl scan_line scan_start (enumerate_from 1 [str ''int y;'']))
   \<and> scan_line scan_start (1, str ''struct Foo;'') = scan_start
   \<and> 2 \<notin> set (get_class_lines_in_file ([str ''int y;''] @ str ''struct Foo;'' # (map str [''{'', ''}''])))"
proof -
  have d: "CLASS_DECLARATION_PATTERN (str ''struct Foo;'')"
    by code_simp
  have o: "\<not> in_class (foldl scan_line scan_start (enumerate_from 1 [str ''int y;'']))"
    by code_simp
  have s: "\<not> in_class scan_start"
    by (simp add: scan_start_def)
  show ?thesis
    using d o s declaration_line_skipped [OF d, of "[str ''int y;'']" "map str [''{'', ''}'']"]
    by simp
qed

text \<open>
  Claim C2, as stated, would open a class region at every line that matches
  \<^verbatim>\<open>^(class|struct) .*$\<close> outside a class. The loop tests the declaration pattern first:
  \<^verbatim>\<open>struct Foo;\<close> matches the start pattern, is met outside a class, and leaves
  \<^verbatim>\<open>in_class\<close> false, so the lines of the function that follows are not flagged,
  whereas the scan as claimed flags lines 2 and 3.
\<close>

theorem claimed_scan_counterexample:
  "CLASS_DEFINITION_START_PATTERN (str ''struct Foo;'')
   \<and> \<not> in_class scan_start
   \<and> \<not> in_class (scan_line scan_start (1, str ''struct Foo;''))
   \<and> get_class_lines_in_file (map str [''struct Foo;'', ''void f() {'', ''int x;'', ''}'']) = []
   \<and> claimed_scan 1 False 0 (map str [''struct Foo;'', ''void f() {'', ''int x;'', ''}'']) = [2, 3]"
  by code_simp

text \<open>
  Claim C2, amended. The detector is a single forward scan with the flag \<^verbatim>\<open>in_class\<close> and
  the depth \<^verbatim>\<open>level\<close>: outside a class, a line that matches \<^verbatim>\<open>^(class|struct) .*$\<close> and
  does not match \<^verbatim>\<open>^(class|struct) .*;$\<close> opens a class region, changes the depth by the
  number of opening minus the number of closing braces on it, and is not flagged; inside a
  class every line changes the depth the same way, a line that brings the depth to 0
  closes the region and is not flagged, and every other line is flagged. For
  \<^verbatim>\<open>["struct Foo {", "int x;", "};"]\<close> the result is exactly line 2.
\<close>

theorem detector_is_amended_scan:
  "get_class_lines_in_file contents = amended_scan 1 False 0 contents
   \<and> get_class_lines_in_file (map str [''struct Foo {'', ''int x;'', ''};'']) = [2]"
proof -
  have "get_class_lines_in_file contents = amended_scan 1 False 0 contents"
    by (simp add: get_class_lines_fold foldl_scan_amended scan_start_def)
  moreover have "get_class_lines_in_file (map str [''struct Foo {'', ''int x;'', ''};'']) = [2]"
    by code_simp
  ultimately show ?thesis by simp
qed

theorem detector_is_amended_scan_witness:
  "amended_scan 1 False 0 (map str [''class A'', ''{'', ''int x;'', ''};'', ''struct B;'', ''int y;''])
     = [2, 3]
   \<and> get_class_lines_in_file
       (map str [''class A'', ''{'', ''int x;'', ''};'', ''struct B;'', ''int y;'']) = [2, 3]"
proof -
  have "amended_scan 1 False 0
          (map str [''class A'', ''{'', ''int x;'', ''};'', ''struct B;'', ''int y;'']) = [2, 3]"
    by code_simp
  then show ?thesis
    using detector_is_amended_scan
      [of "map str [''class A'', ''{'', ''int x;'', ''};'', ''struct B;'', ''int y;'']"]
    by simp
qed


section \<open>Properties of the comment mapper\<close>

lemma card_inter_lines: "card (A \<inter> {a..b::int}) > 0 \<longleftrightarrow> A \<inter> {a..b} \<noteq> {}"
  by (simp add: card_gt_0_iff)

lemma map_segment_result:
  "\<exists>st'. map_segment fname skip st segment = Inr st'
     \<and> comments_dict st' =
         (if overlaps_class skip segment then comments_dict st
          else add_comment (comments_dict st) (fname, segment_comment segment))
     \<and> logged st' =
         (if overlaps_class skip segment
          then logged st @ [Warning_Class_Workaround fname (segment_lines segment)]
          else logged st)"
  by (cases "reformat_type segment")
     (simp_all add: map_segment_def Let_def card_inter_lines overlaps_class_def segment_lines_def
        effective_end_def segment_comment_def add_comment_def)

lemma map_segments_result:
  "\<exists>st'. map_segments fname skip st segs = Inr st'
     \<and> comments_dict st' =
         foldl add_comment (comments_dict st)
           (map (\<lambda>s. (fname, segment_comment s)) (filter (\<lambda>s. \<not> overlaps_class skip s) segs))
     \<and> logged st' =
         logged st @ map (\<lambda>s. Warning_Class_Workaround fname (segment_lines s))
           (filter (overlaps_class skip) segs)"
proof (induction segs arbitrary: st)
  case Nil
  then show ?case by simp
next
  case (Cons s segs)
  obtain st1 where s1: "map_segment fname skip st s = Inr st1"
    and c1: "comments_dict st1 =
         (if overlaps_class skip s then comments_dict st
          else add_comment (comments_dict st) (fname, segment_comment s))"
    and l1: "logged st1 =
         (if overlaps_class skip s
          then logged st @ [Warning_Class_Workaround fname (segment_lines s)]
          else logged st)"
    using map_segment_result [of fname skip st s] by blast
  from Cons.IH [of st1] obtain st2 where s2: "map_segments fname skip st1 segs = Inr st2"
    and c2: "comments_dict st2 =
         foldl add_comment (comments_dict st1)
           (map (\<lambda>s. (fname, segment_comment s)) (filter (\<lambda>s. \<not> overlaps_class skip s) segs))"
    and l2: "logged st2 =
         logged st1 @ map (\<lambda>s. Warning_Class_Workaround fname (segment_lines s))
           (filter (overlaps_class skip) segs)"
    by blast
  show ?case
    using s1 s2 c1 c2 l1 l2 by simp
qed

lemma map_file_result:
  assumes "map_file st f = Inr st'"
  shows "comments_dict st' = foldl add_comment (comments_dict st) (file_comments f)
     \<and> logged st' = logged st @ file_warnings f"
proof (cases "file_mapped f")
  case False
  then show ?thesis using assms
    by (auto simp: map_file_def file_mapped_def file_comments_def file_warnings_def)
next
  case True
  then obtain contents where pc: "patch_contents f = Some contents"
    using assms by (cases "patch_contents f") (auto simp: map_file_def file_mapped_def)
  have run: "map_segments (filename f) (file_skip_set f) st (format_segments f) = Inr st'"
    using assms True pc by (auto simp: map_file_def file_mapped_def file_skip_set_def)
  show ?thesis
    using map_segments_result [of "filename f" "file_skip_set f" st "format_segments f"] run True
    by (auto simp: file_comments_def file_warnings_def)
qed

lemma map_file_returns:
  "map_file st f = Inl e \<longleftrightarrow> e = TypeError \<and> file_mapped f \<and> patch_contents f = None"
proof (cases "file_mapped f")
  case False
  then show ?thesis by (auto simp: map_file_def file_mapped_def)
next
  case True
  show ?thesis
  proof (cases "patch_contents f")
    case None
    then show ?thesis using True by (auto simp: map_file_def file_mapped_def)
  next
    case (Some contents)
    then show ?thesis
      using True map_segments_result [of "filename f" "set (get_class_lines_in_file contents)" st "format_segments f"]
      by (auto simp: map_file_def file_mapped_def)
  qed
qed

lemma map_files_result:
  assumes "map_files st fs = Inr st'"
  shows "comments_dict st' = foldl add_comment (comments_dict st) (concat (map file_comments fs))
     \<and> logged st' = logged st @ concat (map file_warnings fs)"
  using assms
proof (induction fs arbitrary: st)
  case Nil
  then show ?case by simp
next
  case (Cons f fs)
  from Cons.prems obtain st1 where f1: "map_file st f = Inr st1"
    and r1: "map_files st1 fs = Inr st'"
    by (cases "map_file st f") auto
  show ?case
    using map_file_result [OF f1] Cons.IH [OF r1] by simp
qed

lemma map_files_returns:
  "(\<exists>st'. map_files st fs = Inr st') \<longleftrightarrow> (\<forall>f\<in>set fs. file_mapped f \<longrightarrow> patch_contents f \<noteq> None)"
proof (induction fs arbitrary: st)
  case Nil
  then show ?case by simp
next
  case (Cons f fs)
  show ?case
  proof (cases "map_file st f")
    case (Inl e)
    then show ?thesis using map_file_returns [of st f e] by auto
  next
    case (Inr st1)
    have "\<not> (file_mapped f \<and> patch_contents f = None)"
      using Inr map_file_returns [of st f TypeError] by auto
    then show ?thesis using Inr Cons.IH [of st1] by auto
  qed
qed

lemma map_files_error:
  "map_files st fs = Inl e \<Longrightarrow> e = TypeError"
proof (induction fs arbitrary: st)
  case Nil
  then show ?case by simp
next
  case (Cons f fs)
  then show ?case
    using map_file_returns [of st f e]
    by (cases "map_file st f") auto
qed

lemma comments_for_setdefault_extend:
  "comments_for (setdefault_extend k vs d) n = comments_for d n @ (if n = k then vs else [])"
  by (induction d) (auto simp: comments_for_def)

lemma comments_for_foldl_add:
  "comments_for (foldl add_comment d ps) n =
     comments_for d n @ map snd (filter (\<lambda>p. fst p = n) ps)"
  by (induction ps arbitrary: d) (auto simp: add_comment_def comments_for_setdefault_extend)

lemma setdefault_extend_values:
  "vs \<noteq> [] \<Longrightarrow> \<forall>p\<in>set d. snd p \<noteq> [] \<Longrightarrow> \<forall>p\<in>set (setdefault_extend k vs d). snd p \<noteq> []"
  by (induction d) (force split: if_splits)+

lemma foldl_add_comment_values:
  "\<forall>p\<in>set d. snd p \<noteq> [] \<Longrightarrow> \<forall>p\<in>set (foldl add_comment d ps). snd p \<noteq> []"
proof (induction ps arbitrary: d)
  case Nil
  then show ?case by simp
next
  case (Cons p ps)
  have "\<forall>q\<in>set (add_comment d p). snd q \<noteq> []"
    unfolding add_comment_def using Cons.prems by (intro setdefault_extend_values) simp_all
  then show ?case using Cons.IH by simp
qed

lemma concat_values_Nil:
  "\<forall>p\<in>set d. snd p \<noteq> [] \<Longrightarrow> concat (map snd d) = [] \<longleftrightarrow> d = []"
  by (cases d) auto

lemma change_to_review_input_returns:
  assumes "\<forall>g\<in>set (files change). formatted_contents g \<noteq> None \<longrightarrow> patch_contents g \<noteq> None"
  obtains st where "map_files mapper_start (files change) = Inr st"
proof -
  have "\<forall>f\<in>set (files change). file_mapped f \<longrightarrow> patch_contents f \<noteq> None"
    using assms by (simp add: file_mapped_def)
  then have "\<exists>st'. map_files mapper_start (files change) = Inr st'"
    by (simp only: map_files_returns)
  then show ?thesis using that by blast
qed

lemma example_review:
  "change_to_review_input \<lparr>files = [example_file]\<rparr> =
     Inr (\<lparr>review_message = CHANGES_MESSAGE,
           comments =
             [((str ''Foo.h''),
               [\<lparr>message = suggestion_message (str ''change'') (map str [''struct Foo'', ''{'']),
                 comment_range = \<lparr>start_line = 1, start_character = 0,
                                  end_line = 1, end_character = 0\<rparr>\<rparr>])],
           labels = [(str ''Haiku-Format'', - 1)], notify = OWNER\<rparr>,
          [Warning_Class_Workaround (str ''Foo.h'') {2}])"
  by code_simp


lemma mapper_run:
  assumes "\<forall>g\<in>set (files change). formatted_contents g \<noteq> None \<longrightarrow> patch_contents g \<noteq> None"
  obtains review lg where "change_to_review_input change = Inr (review, lg)"
    and "comments review = foldl add_comment [] (concat (map file_comments (files change)))"
    and "lg = concat (map file_warnings (files change))"
    and "review_message review =
           (if comments review = [] then NO_CHANGES_MESSAGE else CHANGES_MESSAGE)"
    and "labels review = [(str ''Haiku-Format'', if comments review = [] then 1 else - 1)]"
    and "notify review = OWNER"
proof -
  obtain st where run: "map_files mapper_start (files change) = Inr st"
    using assms by (rule change_to_review_input_returns)
  have c: "comments_dict st = foldl add_comment [] (concat (map file_comments (files change)))"
    and l: "logged st = concat (map file_warnings (files change))"
    using map_files_result [OF run] by (simp_all add: mapper_start_def)
  show ?thesis
  proof (cases "comments_dict st = []")
    case True
    show ?thesis
      by (rule that [of "\<lparr>review_message = NO_CHANGES_MESSAGE, comments = comments_dict st,
                  labels = [(str ''Haiku-Format'', 1)], notify = OWNER\<rparr>" "logged st"])
         (use run c l True in \<open>simp_all add: change_to_review_input_def\<close>)
  next
    case False
    show ?thesis
      by (rule that [of "\<lparr>review_message = CHANGES_MESSAGE, comments = comments_dict st,
                  labels = [(str ''Haiku-Format'', - 1)], notify = OWNER\<rparr>" "logged st"])
         (use run c l False in \<open>simp_all add: change_to_review_input_def\<close>)
  qed
qed

lemma foldl_add_comment_Nil:
  "foldl add_comment d ps = [] \<longleftrightarrow> d = [] \<and> ps = []"
proof (induction ps arbitrary: d)
  case Nil
  then show ?case by simp
next
  case (Cons p ps)
  have "add_comment d p \<noteq> []"
    by (cases d) (auto simp: add_comment_def split: if_splits)
  then show ?case using Cons.IH by simp
qed

lemma comments_for_Nil: "comments_for [] name = []"
  by (simp add: comments_for_def)

text \<open>
  Claim C4. The mapper returns for every change in which each file with formatted
  contents has patch contents. When no comment is produced across the files of the
  change (no segment of a file with formatted contents survives the suppression), the
  review has no comment, the fixed notice that no formatting changes are suggested and
  the label map \<^verbatim>\<open>{"Haiku-Format": +1}\<close>; when at least one comment is produced, the review
  has comments, the fixed explanatory notice and the label map
  \<^verbatim>\<open>{"Haiku-Format": -1}\<close>. The comments of the review under a file name are the comments
  produced for the files of that name, in order, and the notify directive is
  \<^verbatim>\<open>OWNER\<close> in both cases.
\<close>

theorem review_verdict:
  assumes "\<forall>g\<in>set (files change). formatted_contents g \<noteq> None \<longrightarrow> patch_contents g \<noteq> None"
  shows "\<exists>review lg. change_to_review_input change = Inr (review, lg)
     \<and> (concat (map file_comments (files change)) = [] \<longrightarrow>
          review_message review = NO_CHANGES_MESSAGE
          \<and> labels review = [(str ''Haiku-Format'', 1)]
          \<and> comments review = [])
     \<and> (concat (map file_comments (files change)) \<noteq> [] \<longrightarrow>
          review_message review = CHANGES_MESSAGE
          \<and> labels review = [(str ''Haiku-Format'', - 1)]
          \<and> concat (map snd (comments review)) \<noteq> [])
     \<and> (\<forall>name. comments_for (comments review) name =
           map snd (filter (\<lambda>p. fst p = name) (concat (map file_comments (files change)))))
     \<and> notify review = OWNER"
proof -
  let ?produced = "concat (map file_comments (files change))"
  obtain review lg where run: "change_to_review_input change = Inr (review, lg)"
    and c: "comments review = foldl add_comment [] ?produced"
    and m: "review_message review =
           (if comments review = [] then NO_CHANGES_MESSAGE else CHANGES_MESSAGE)"
    and l: "labels review = [(str ''Haiku-Format'', if comments review = [] then 1 else - 1)]"
    and n: "notify review = OWNER"
    using assms by (rule mapper_run)
  have empty: "comments review = [] \<longleftrightarrow> ?produced = []"
    using c by (simp add: foldl_add_comment_Nil)
  have "\<forall>p\<in>set (comments review). snd p \<noteq> []"
    unfolding c by (rule foldl_add_comment_values) simp
  then have some: "concat (map snd (comments review)) = [] \<longleftrightarrow> comments review = []"
    by (rule concat_values_Nil)
  have under: "comments_for (comments review) name =
      map snd (filter (\<lambda>p. fst p = name) ?produced)" for name
    unfolding c by (simp add: comments_for_foldl_add comments_for_Nil)
  have none: "?produced = [] \<longrightarrow>
          review_message review = NO_CHANGES_MESSAGE
          \<and> labels review = [(str ''Haiku-Format'', 1)]
          \<and> comments review = []"
    using empty m l by simp
  have many: "?produced \<noteq> [] \<longrightarrow>
          review_message review = CHANGES_MESSAGE
          \<and> labels review = [(str ''Haiku-Format'', - 1)]
          \<and> concat (map snd (comments review)) \<noteq> []"
    using empty some m l by simp
  show ?thesis
    using run none many under n by blast
qed

theorem review_verdict_witness:
  "(\<exists>review lg. change_to_review_input \<lparr>files = [example_file]\<rparr> = Inr (review, lg)
      \<and> review_message review = CHANGES_MESSAGE
      \<and> labels review = [(str ''Haiku-Format'', - 1)]
      \<and> concat (map snd (comments review)) \<noteq> [] \<and> notify review = OWNER)
   \<and> (\<exists>review lg.
        change_to_review_input
          \<lparr>files = [example_file\<lparr>format_segments :=
             [\<lparr>seg_start = 2, seg_end = 2, reformat_type = MODIFICATION,
               formatted_content = [str ''  int x;'']\<rparr>]\<rparr>]\<rparr> = Inr (review, lg)
      \<and> review_message review = NO_CHANGES_MESSAGE
      \<and> labels review = [(str ''Haiku-Format'', 1)]
      \<and> comments review = [] \<and> notify review = OWNER)"
proof -
  let ?one = "\<lparr>files = [example_file]\<rparr>"
  let ?two = "\<lparr>files = [example_file\<lparr>format_segments :=
             [\<lparr>seg_start = 2, seg_end = 2, reformat_type = MODIFICATION,
               formatted_content = [str ''  int x;'']\<rparr>]\<rparr>]\<rparr>"
  have w1: "\<forall>g\<in>set (files ?one). formatted_contents g \<noteq> None \<longrightarrow> patch_contents g \<noteq> None"
    by (simp add: example_file_def)
  have w2: "\<forall>g\<in>set (files ?two). formatted_contents g \<noteq> None \<longrightarrow> patch_contents g \<noteq> None"
    by (simp add: example_file_def)
  have p1: "concat (map file_comments (files ?one)) \<noteq> []"
    by code_simp
  have p2: "concat (map file_comments (files ?two)) = []"
    by code_simp
  have "\<exists>review lg. change_to_review_input ?one = Inr (review, lg)
      \<and> review_message review = CHANGES_MESSAGE
      \<and> labels review = [(str ''Haiku-Format'', - 1)]
      \<and> concat (map snd (comments review)) \<noteq> [] \<and> notify review = OWNER"
    using review_verdict [OF w1] p1 by blast
  moreover have "\<exists>review lg. change_to_review_input ?two = Inr (review, lg)
      \<and> review_message review = NO_CHANGES_MESSAGE
      \<and> labels review = [(str ''Haiku-Format'', 1)]
      \<and> comments review = [] \<and> notify review = OWNER"
    using review_verdict [OF w2] p2 by blast
  ultimately show ?thesis by blast
qed

lemma review_determined:
  assumes "change_to_review_input change = Inr (review, lg)"
    and "change_to_review_input change' = Inr (review', lg')"
    and "comments review = comments review'"
  shows "review = review'"
  using assms
  by (auto simp: change_to_review_input_def split: sum.splits if_splits)

lemma file_comment_in_review:
  assumes "f \<in> set fs" and "p \<in> set (file_comments f)"
  shows "snd p \<in> set (comments_for (foldl add_comment [] (concat (map file_comments fs))) (fst p))"
proof -
  have "p \<in> set (concat (map file_comments fs))" using assms by auto
  then have "snd p \<in> snd ` set (filter (\<lambda>q. fst q = fst p) (concat (map file_comments fs)))"
    by force
  moreover have "comments_for ([] :: (pystr \<times> CommentInput list) list) (fst p) = []"
    by (simp add: comments_for_def)
  ultimately show ?thesis by (simp add: comments_for_foldl_add)
qed

text \<open>
  Claim C1. For a file with formatted content, and a segment of it whose line set, from
  \<^verbatim>\<open>start\<close> to the effective end (\<^verbatim>\<open>start\<close> for an insertion, \<^verbatim>\<open>end\<close> otherwise), meets the
  skip set of the file's patch contents: the warning naming the file and the line set is
  in the log, and the review is the one the change gives with that segment taken out of
  the file, so the segment adds no comment; the iteration for the segment leaves the
  comments as they are and appends the warning. Over
  \<^verbatim>\<open>["struct Foo {", "int x;", "};"]\<close> the modification of lines 2 to 2 is discarded with
  the warning and the modification of line 1 is kept.
\<close>

theorem overlapping_segment_suppressed:
  assumes "\<forall>g\<in>set (files change). formatted_contents g \<noteq> None \<longrightarrow> patch_contents g \<noteq> None"
    and "files change = pre @ f # post"
    and "formatted_contents f \<noteq> None"
    and "patch_contents f = Some contents"
    and "format_segments f = before @ segment # after"
    and "lines = set [seg_start segment ..
           (if reformat_type segment = INSERTION then seg_start segment else seg_end segment)]"
    and "lines \<inter> set (get_class_lines_in_file contents) \<noteq> {}"
  shows "(\<exists>review lg lg'.
            change_to_review_input change = Inr (review, lg)
          \<and> Warning_Class_Workaround (filename f) lines \<in> set lg
          \<and> change_to_review_input
              (change\<lparr>files := pre @ f\<lparr>format_segments := before @ after\<rparr> # post\<rparr>)
              = Inr (review, lg'))
     \<and> (\<forall>st. \<exists>st'.
            map_segment (filename f) (set (get_class_lines_in_file contents)) st segment = Inr st'
          \<and> comments_dict st' = comments_dict st
          \<and> logged st' = logged st @ [Warning_Class_Workaround (filename f) lines])
     \<and> change_to_review_input \<lparr>files = [example_file]\<rparr> =
         Inr (\<lparr>review_message = CHANGES_MESSAGE,
               comments =
                 [((str ''Foo.h''),
                   [\<lparr>message = suggestion_message (str ''change'') (map str [''struct Foo'', ''{'']),
                     comment_range = \<lparr>start_line = 1, start_character = 0,
                                      end_line = 1, end_character = 0\<rparr>\<rparr>])],
               labels = [(str ''Haiku-Format'', - 1)], notify = OWNER\<rparr>,
              [Warning_Class_Workaround (str ''Foo.h'') {2}])"
proof -
  let ?f' = "f\<lparr>format_segments := before @ after\<rparr>"
  let ?change' = "change\<lparr>files := pre @ ?f' # post\<rparr>"
  have lines: "lines = segment_lines segment"
    using assms(6) by (simp add: segment_lines_def effective_end_def)
  have skip: "file_skip_set f = set (get_class_lines_in_file contents)"
    using assms(4) by (simp add: file_skip_set_def)
  have over: "overlaps_class (file_skip_set f) segment"
    using assms(7) lines skip by (auto simp: overlaps_class_def)
  have mapped: "file_mapped f"
    using assms(3,5) by (simp add: file_mapped_def)
  obtain review lg where run: "change_to_review_input change = Inr (review, lg)"
    and c: "comments review = foldl add_comment [] (concat (map file_comments (files change)))"
    and l: "lg = concat (map file_warnings (files change))"
    using assms(1) by (rule mapper_run)
  have wf': "\<forall>g\<in>set (files ?change'). formatted_contents g \<noteq> None \<longrightarrow> patch_contents g \<noteq> None"
    using assms(1,2,4) by auto
  obtain review' lg' where run': "change_to_review_input ?change' = Inr (review', lg')"
    and c': "comments review' = foldl add_comment [] (concat (map file_comments (files ?change')))"
    using wf' by (rule mapper_run)
  have "file_comments ?f' = file_comments f"
    using over mapped assms(5)
    by (auto simp: file_comments_def file_mapped_def file_skip_set_def)
  then have "comments review = comments review'"
    using c c' assms(2) by simp
  then have same: "review = review'"
    by (rule review_determined [OF run run'])
  have "Warning_Class_Workaround (filename f) lines \<in> set (file_warnings f)"
    using over mapped assms(5) lines by (simp add: file_warnings_def)
  then have warned: "Warning_Class_Workaround (filename f) lines \<in> set lg"
    using l assms(2) by simp
  have step: "\<exists>st'.
            map_segment (filename f) (set (get_class_lines_in_file contents)) st segment = Inr st'
          \<and> comments_dict st' = comments_dict st
          \<and> logged st' = logged st @ [Warning_Class_Workaround (filename f) lines]" for st
    using map_segment_result [of "filename f" "file_skip_set f" st segment] over lines skip
    by simp
  show ?thesis
    using run run' same warned step example_review by blast
qed

theorem overlapping_segment_suppressed_witness:
  "\<exists>review lg lg'.
      change_to_review_input \<lparr>files = [example_file]\<rparr> = Inr (review, lg)
    \<and> Warning_Class_Workaround (str ''Foo.h'') {2} \<in> set lg
    \<and> change_to_review_input
        \<lparr>files = [example_file\<lparr>format_segments :=
           [\<lparr>seg_start = 1, seg_end = 1, reformat_type = MODIFICATION,
             formatted_content = map str [''struct Foo'', ''{'']\<rparr>]\<rparr>]\<rparr> = Inr (review, lg')"
proof -
  let ?seg = "\<lparr>seg_start = 2, seg_end = 2, reformat_type = MODIFICATION,
          formatted_content = [str ''  int x;'']\<rparr>"
  let ?after = "[\<lparr>seg_start = 1, seg_end = 1, reformat_type = MODIFICATION,
             formatted_content = map str [''struct Foo'', ''{'']\<rparr>]"
  have h1: "\<forall>g\<in>set (files \<lparr>files = [example_file]\<rparr>).
      formatted_contents g \<noteq> None \<longrightarrow> patch_contents g \<noteq> None"
    by (simp add: example_file_def)
  have h2: "files \<lparr>files = [example_file]\<rparr> = [] @ example_file # []"
    by simp
  have h3: "formatted_contents example_file \<noteq> None"
    by (simp add: example_file_def)
  have h4: "patch_contents example_file = Some (map str [''struct Foo {'', ''int x;'', ''};''])"
    by (simp add: example_file_def)
  have h5: "format_segments example_file = [] @ ?seg # ?after"
    by (simp add: example_file_def)
  have h6: "{2} = set [seg_start ?seg ..
           (if reformat_type ?seg = INSERTION then seg_start ?seg else seg_end ?seg)]"
    by simp
  have h7: "{2} \<inter> set (get_class_lines_in_file (map str [''struct Foo {'', ''int x;'', ''};''])) \<noteq> {}"
    by code_simp
  have fn: "filename example_file = str ''Foo.h''"
    by (simp add: example_file_def)
  show ?thesis
    using overlapping_segment_suppressed [OF h1 h2 h3 h4 h5 h6 h7, THEN conjunct1]
    by (simp add: fn)
qed

lemma surviving_segment_in_review:
  assumes "\<forall>g\<in>set (files change). formatted_contents g \<noteq> None \<longrightarrow> patch_contents g \<noteq> None"
    and "f \<in> set (files change)"
    and "formatted_contents f \<noteq> None"
    and "patch_contents f = Some contents"
    and "segment \<in> set (format_segments f)"
    and "\<not> overlaps_class (set (get_class_lines_in_file contents)) segment"
  obtains review lg where "change_to_review_input change = Inr (review, lg)"
    and "segment_comment segment \<in> set (comments_for (comments review) (filename f))"
proof -
  obtain review lg where run: "change_to_review_input change = Inr (review, lg)"
    and c: "comments review = foldl add_comment [] (concat (map file_comments (files change)))"
    using assms(1) by (rule mapper_run)
  have "file_mapped f"
    using assms(3,5) by (auto simp: file_mapped_def)
  then have "(filename f, segment_comment segment) \<in> set (file_comments f)"
    using assms(4,5,6) by (simp add: file_comments_def file_skip_set_def)
  then have "segment_comment segment \<in> set (comments_for (comments review) (filename f))"
    using file_comment_in_review [OF assms(2), of "(filename f, segment_comment segment)"] c
    by simp
  with run show ?thesis by (rule that)
qed

text \<open>
  Claim C3. A segment that survives the class-region suppression gives a comment whose
  range is \<^verbatim>\<open>(segment.start, 0, effective_end, 0)\<close>, where the effective end is
  \<^verbatim>\<open>segment.start\<close> for an insertion and \<^verbatim>\<open>segment.end\<close> for a modification (and for
  any segment that is not an insertion): such a comment
  is in the review under the file's name, and the iteration for the segment appends it.
  An insertion anchored at line 5 gives \<^verbatim>\<open>CommentRange(5, 0, 5, 0)\<close> and a modification of
  lines 3 to 6 gives \<^verbatim>\<open>CommentRange(3, 0, 6, 0)\<close>.
\<close>

theorem surviving_segment_range:
  assumes "\<forall>g\<in>set (files change). formatted_contents g \<noteq> None \<longrightarrow> patch_contents g \<noteq> None"
    and "f \<in> set (files change)"
    and "formatted_contents f \<noteq> None"
    and "patch_contents f = Some contents"
    and "segment \<in> set (format_segments f)"
    and "eff_end =
           (if reformat_type segment = INSERTION then seg_start segment else seg_end segment)"
    and "set [seg_start segment .. eff_end] \<inter> set (get_class_lines_in_file contents) = {}"
  shows "(\<exists>review lg c.
            change_to_review_input change = Inr (review, lg)
          \<and> c \<in> set (comments_for (comments review) (filename f))
          \<and> comment_range c = \<lparr>start_line = seg_start segment, start_character = 0,
                                end_line = eff_end, end_character = 0\<rparr>)
     \<and> (\<forall>st. \<exists>st' text.
            map_segment (filename f) (set (get_class_lines_in_file contents)) st segment = Inr st'
          \<and> comments_dict st' =
              setdefault_extend (filename f)
                [\<lparr>message = text,
                  comment_range = \<lparr>start_line = seg_start segment, start_character = 0,
                                   end_line = eff_end, end_character = 0\<rparr>\<rparr>]
                (comments_dict st))
     \<and> map_segment (str ''main.cpp'') {} mapper_start
          \<lparr>seg_start = 5, seg_end = 5, reformat_type = INSERTION, formatted_content = [str '''']\<rparr>
         = Inr \<lparr>comments_dict =
                  [((str ''main.cpp''),
                    [\<lparr>message = suggestion_message (str ''insert after'') [str ''''],
                      comment_range = \<lparr>start_line = 5, start_character = 0,
                                       end_line = 5, end_character = 0\<rparr>\<rparr>])],
                operation = Some (str ''insert after''), logged = []\<rparr>
     \<and> map_segment (str ''main.cpp'') {} mapper_start
          \<lparr>seg_start = 3, seg_end = 6, reformat_type = MODIFICATION,
           formatted_content = [str ''int b;'']\<rparr>
         = Inr \<lparr>comments_dict =
                  [((str ''main.cpp''),
                    [\<lparr>message = suggestion_message (str ''change'') [str ''int b;''],
                      comment_range = \<lparr>start_line = 3, start_character = 0,
                                       end_line = 6, end_character = 0\<rparr>\<rparr>])],
                operation = Some (str ''change''), logged = []\<rparr>"
proof -
  have eff: "eff_end = effective_end segment"
    using assms(6) by (simp add: effective_end_def)
  have keep: "\<not> overlaps_class (set (get_class_lines_in_file contents)) segment"
    using assms(7) eff by (auto simp: overlaps_class_def segment_lines_def)
  obtain review lg where run: "change_to_review_input change = Inr (review, lg)"
    and m: "segment_comment segment \<in> set (comments_for (comments review) (filename f))"
    using assms(1-5) keep by (rule surviving_segment_in_review)
  have r: "comment_range (segment_comment segment) =
      \<lparr>start_line = seg_start segment, start_character = 0,
       end_line = eff_end, end_character = 0\<rparr>"
    using eff by (simp add: segment_comment_def)
  have whole: "\<exists>review lg c.
            change_to_review_input change = Inr (review, lg)
          \<and> c \<in> set (comments_for (comments review) (filename f))
          \<and> comment_range c = \<lparr>start_line = seg_start segment, start_character = 0,
                                end_line = eff_end, end_character = 0\<rparr>"
    using run m r by blast
  have step: "\<exists>st' text.
            map_segment (filename f) (set (get_class_lines_in_file contents)) st segment = Inr st'
          \<and> comments_dict st' =
              setdefault_extend (filename f)
                [\<lparr>message = text,
                  comment_range = \<lparr>start_line = seg_start segment, start_character = 0,
                                   end_line = eff_end, end_character = 0\<rparr>\<rparr>]
                (comments_dict st)" for st
    using map_segment_result [of "filename f" "set (get_class_lines_in_file contents)" st segment]
      keep eff
    by (auto simp: add_comment_def segment_comment_def)
  have ex1: "map_segment (str ''main.cpp'') {} mapper_start
          \<lparr>seg_start = 5, seg_end = 5, reformat_type = INSERTION, formatted_content = [str '''']\<rparr>
         = Inr \<lparr>comments_dict =
                  [((str ''main.cpp''),
                    [\<lparr>message = suggestion_message (str ''insert after'') [str ''''],
                      comment_range = \<lparr>start_line = 5, start_character = 0,
                                       end_line = 5, end_character = 0\<rparr>\<rparr>])],
                operation = Some (str ''insert after''), logged = []\<rparr>"
    by (simp add: map_segment_def mapper_start_def)
  have ex2: "map_segment (str ''main.cpp'') {} mapper_start
          \<lparr>seg_start = 3, seg_end = 6, reformat_type = MODIFICATION,
           formatted_content = [str ''int b;'']\<rparr>
         = Inr \<lparr>comments_dict =
                  [((str ''main.cpp''),
                    [\<lparr>message = suggestion_message (str ''change'') [str ''int b;''],
                      comment_range = \<lparr>start_line = 3, start_character = 0,
                                       end_line = 6, end_character = 0\<rparr>\<rparr>])],
                operation = Some (str ''change''), logged = []\<rparr>"
    by (simp add: map_segment_def mapper_start_def)
  show ?thesis
    using whole step ex1 ex2 by blast
qed

theorem surviving_segment_range_witness:
  "\<exists>review lg c.
      change_to_review_input \<lparr>files = [plain_file]\<rparr> = Inr (review, lg)
    \<and> c \<in> set (comments_for (comments review) (str ''main.cpp''))
    \<and> comment_range c = \<lparr>start_line = 5, start_character = 0,
                          end_line = 5, end_character = 0\<rparr>"
proof -
  let ?seg = "\<lparr>seg_start = 5, seg_end = 5, reformat_type = INSERTION,
          formatted_content = [str '''']\<rparr>"
  have h1: "\<forall>g\<in>set (files \<lparr>files = [plain_file]\<rparr>).
      formatted_contents g \<noteq> None \<longrightarrow> patch_contents g \<noteq> None"
    by (simp add: plain_file_def)
  have h2: "plain_file \<in> set (files \<lparr>files = [plain_file]\<rparr>)"
    by simp
  have h3: "formatted_contents plain_file \<noteq> None"
    by (simp add: plain_file_def)
  have h4: "patch_contents plain_file =
      Some (map str [''int a;'', '''', ''int  b;'', ''int   c ;'', ''int d;'', ''int e;''])"
    by (simp add: plain_file_def)
  have h5: "?seg \<in> set (format_segments plain_file)"
    by (simp add: plain_file_def)
  have h7: "5 = (if reformat_type ?seg = INSERTION then seg_start ?seg else seg_end ?seg)"
    by simp
  have h8: "set [seg_start ?seg .. 5] \<inter>
      set (get_class_lines_in_file
             (map str [''int a;'', '''', ''int  b;'', ''int   c ;'', ''int d;'', ''int e;''])) = {}"
    by code_simp
  have fn: "filename plain_file = str ''main.cpp''"
    by (simp add: plain_file_def)
  show ?thesis
    using surviving_segment_range [OF h1 h2 h3 h4 h5 h7 h8, THEN conjunct1]
    by (simp add: fn)
qed

text \<open>
  Claim C9. For a deletion the mapper takes the full span from \<^verbatim>\<open>start\<close> to \<^verbatim>\<open>end\<close> both
  for the suppression line set and for the comment range: a deletion that is not
  suppressed gives the comment with range \<^verbatim>\<open>(start, 0, end, 0)\<close> and the fixed removal
  suggestion, a suppressed one the warning with that line set. The iteration for a
  deletion does not read \<^verbatim>\<open>operation\<close> and leaves it as it was, also when it is unbound,
  and the iteration returns for a segment of any of the three types.
\<close>

theorem deletion_segment_mapping:
  assumes "\<forall>g\<in>set (files change). formatted_contents g \<noteq> None \<longrightarrow> patch_contents g \<noteq> None"
    and "f \<in> set (files change)"
    and "formatted_contents f \<noteq> None"
    and "patch_contents f = Some contents"
    and "segment \<in> set (format_segments f)"
    and "reformat_type segment = DELETION"
    and "lines = set [seg_start segment .. seg_end segment]"
    and "skip = set (get_class_lines_in_file contents)"
  shows "(\<exists>review lg.
            change_to_review_input change = Inr (review, lg)
          \<and> (if lines \<inter> skip \<noteq> {}
              then Warning_Class_Workaround (filename f) lines \<in> set lg
              else \<lparr>message = DELETION_MESSAGE,
                    comment_range = \<lparr>start_line = seg_start segment, start_character = 0,
                                     end_line = seg_end segment, end_character = 0\<rparr>\<rparr>
                   \<in> set (comments_for (comments review) (filename f))))
     \<and> (\<forall>st. \<exists>st'.
            map_segment (filename f) skip st segment = Inr st'
          \<and> operation st' = operation st
          \<and> (if lines \<inter> skip \<noteq> {}
              then comments_dict st' = comments_dict st
                 \<and> logged st' = logged st @ [Warning_Class_Workaround (filename f) lines]
              else comments_dict st' =
                     setdefault_extend (filename f)
                       [\<lparr>message = DELETION_MESSAGE,
                         comment_range = \<lparr>start_line = seg_start segment, start_character = 0,
                                          end_line = seg_end segment, end_character = 0\<rparr>\<rparr>]
                       (comments_dict st)
                 \<and> logged st' = logged st))
     \<and> (\<forall>name lines_to_skip st any_segment.
            \<exists>st'. map_segment name lines_to_skip st any_segment = Inr st')"
proof -
  have lines: "lines = segment_lines segment"
    using assms(6,7) by (simp add: segment_lines_def effective_end_def)
  have over: "overlaps_class skip segment \<longleftrightarrow> lines \<inter> skip \<noteq> {}"
    using lines by (auto simp: overlaps_class_def)
  have comment: "segment_comment segment =
      \<lparr>message = DELETION_MESSAGE,
       comment_range = \<lparr>start_line = seg_start segment, start_character = 0,
                        end_line = seg_end segment, end_character = 0\<rparr>\<rparr>"
    using assms(6) by (simp add: segment_comment_def effective_end_def)
  have whole: "\<exists>review lg.
            change_to_review_input change = Inr (review, lg)
          \<and> (if lines \<inter> skip \<noteq> {}
              then Warning_Class_Workaround (filename f) lines \<in> set lg
              else \<lparr>message = DELETION_MESSAGE,
                    comment_range = \<lparr>start_line = seg_start segment, start_character = 0,
                                     end_line = seg_end segment, end_character = 0\<rparr>\<rparr>
                   \<in> set (comments_for (comments review) (filename f)))"
  proof (cases "lines \<inter> skip \<noteq> {}")
    case True
    obtain review lg where run: "change_to_review_input change = Inr (review, lg)"
      and l: "lg = concat (map file_warnings (files change))"
      using assms(1) by (rule mapper_run)
    have "file_mapped f"
      using assms(3,5) by (auto simp: file_mapped_def)
    then have "Warning_Class_Workaround (filename f) lines \<in> set (file_warnings f)"
      using True over lines assms(4,5,8) by (auto simp: file_warnings_def file_skip_set_def)
    then have "Warning_Class_Workaround (filename f) lines \<in> set lg"
      using l assms(2) by auto
    then show ?thesis using run True by auto
  next
    case False
    then have keep: "\<not> overlaps_class (set (get_class_lines_in_file contents)) segment"
      using over assms(8) by simp
    obtain review lg where run: "change_to_review_input change = Inr (review, lg)"
      and m: "segment_comment segment \<in> set (comments_for (comments review) (filename f))"
      using assms(1-5) keep by (rule surviving_segment_in_review)
    then show ?thesis using False comment by auto
  qed
  have step: "\<exists>st'.
            map_segment (filename f) skip st segment = Inr st'
          \<and> operation st' = operation st
          \<and> (if lines \<inter> skip \<noteq> {}
              then comments_dict st' = comments_dict st
                 \<and> logged st' = logged st @ [Warning_Class_Workaround (filename f) lines]
              else comments_dict st' =
                     setdefault_extend (filename f)
                       [\<lparr>message = DELETION_MESSAGE,
                         comment_range = \<lparr>start_line = seg_start segment, start_character = 0,
                                          end_line = seg_end segment, end_character = 0\<rparr>\<rparr>]
                       (comments_dict st)
                 \<and> logged st' = logged st)" for st
    using assms(6,7)
    by (auto simp: map_segment_def Let_def card_inter_lines Int_commute)
  have total: "\<exists>st'. map_segment name lines_to_skip st any_segment = Inr st'"
    for name lines_to_skip st any_segment
    using map_segment_result [of name lines_to_skip st any_segment] by blast
  show ?thesis
    using whole step total by blast
qed

theorem deletion_segment_mapping_witness:
  "\<exists>review lg.
      change_to_review_input \<lparr>files = [plain_file]\<rparr> = Inr (review, lg)
    \<and> \<lparr>message = DELETION_MESSAGE,
        comment_range = \<lparr>start_line = 2, start_character = 0,
                         end_line = 2, end_character = 0\<rparr>\<rparr>
       \<in> set (comments_for (comments review) (str ''main.cpp''))"
proof -
  let ?seg = "\<lparr>seg_start = 2, seg_end = 2, reformat_type = DELETION,
          formatted_content = []\<rparr>"
  let ?contents = "map str [''int a;'', '''', ''int  b;'', ''int   c ;'', ''int d;'', ''int e;'']"
  have h1: "\<forall>g\<in>set (files \<lparr>files = [plain_file]\<rparr>).
      formatted_contents g \<noteq> None \<longrightarrow> patch_contents g \<noteq> None"
    by (simp add: plain_file_def)
  have h2: "plain_file \<in> set (files \<lparr>files = [plain_file]\<rparr>)"
    by simp
  have h3: "formatted_contents plain_file \<noteq> None"
    by (simp add: plain_file_def)
  have h4: "patch_contents plain_file = Some ?contents"
    by (simp add: plain_file_def)
  have h5: "?seg \<in> set (format_segments plain_file)"
    by (simp add: plain_file_def)
  have h6: "reformat_type ?seg = DELETION"
    by simp
  have h7: "{2} = set [seg_start ?seg .. seg_end ?seg]"
    by simp
  have h8: "{} = set (get_class_lines_in_file ?contents)"
    by code_simp
  have fn: "filename plain_file = str ''main.cpp''"
    by (simp add: plain_file_def)
  show ?thesis
    using deletion_segment_mapping [OF h1 h2 h3 h4 h5 h6 h7 h8, THEN conjunct1]
    by (simp add: fn)
qed


section \<open>Properties of the extension pattern\<close>

lemma dot_star_iff:
  "dot_star k s \<longleftrightarrow> (\<exists>pre post. s = pre @ post \<and> NEWLINE \<notin> set pre \<and> k post)"
proof (induction s)
  case Nil
  then show ?case by simp
next
  case (Cons c cs)
  show ?case
  proof
    assume "dot_star k (c # cs)"
    then consider "k (c # cs)" | "c \<noteq> NEWLINE" "dot_star k cs" by auto
    then show "\<exists>pre post. c # cs = pre @ post \<and> NEWLINE \<notin> set pre \<and> k post"
    proof cases
      case 1
      then have "c # cs = [] @ (c # cs) \<and> NEWLINE \<notin> set [] \<and> k (c # cs)" by simp
      then show ?thesis by blast
    next
      case 2
      then obtain pre post where "cs = pre @ post" "NEWLINE \<notin> set pre" "k post"
        using Cons.IH by blast
      then have "c # cs = (c # pre) @ post \<and> NEWLINE \<notin> set (c # pre) \<and> k post"
        using 2(1) by simp
      then show ?thesis by blast
    qed
  next
    assume "\<exists>pre post. c # cs = pre @ post \<and> NEWLINE \<notin> set pre \<and> k post"
    then obtain pre post where split: "c # cs = pre @ post" "NEWLINE \<notin> set pre" "k post"
      by blast
    show "dot_star k (c # cs)"
    proof (cases pre)
      case Nil
      then have "post = c # cs" using split(1) by simp
      then show ?thesis using split(3) by simp
    next
      case (Cons p pre')
      then have "c = p" "cs = pre' @ post" "NEWLINE \<notin> set pre'" "c \<noteq> NEWLINE"
        using split by auto
      then show ?thesis using Cons.IH split(3) by auto
    qed
  qed
qed

lemma literal_iff:
  "literal ic p k s \<longleftrightarrow> (\<exists>a b. s = a @ b \<and> list_all2 (char_matches ic) p a \<and> k b)"
proof (induction p arbitrary: s)
  case Nil
  then show ?case by simp
next
  case (Cons c p)
  show ?case
  proof (cases s)
    case Nil
    then show ?thesis by (simp add: list_all2_Cons1)
  next
    case (Cons x xs)
    show ?thesis
      unfolding Cons literal.simps Cons.IH
      by (auto simp: list_all2_Cons1 Cons_eq_append_conv) 
  qed
qed

lemma char_matches_lower:
  "ascii_lower c = ascii_lower p \<Longrightarrow> char_matches True p c"
  by (simp add: char_matches_def ignorecase_matches_def)

lemma char_matches_ascii:
  "c < 0x80 \<Longrightarrow> char_matches True p c \<longleftrightarrow> ascii_lower c = ascii_lower p"
  by (auto simp: char_matches_def ignorecase_matches_def)

lemma list_all2_lower:
  "map ascii_lower a = map ascii_lower p \<Longrightarrow> list_all2 (char_matches True) p a"
proof (induction p arbitrary: a)
  case Nil
  then show ?case by simp
next
  case (Cons x p)
  then obtain y a' where "a = y # a'" by (cases a) auto
  with Cons show ?case by (simp add: char_matches_lower)
qed

lemma list_all2_ascii:
  "list_all2 (char_matches True) p a \<Longrightarrow> \<forall>c\<in>set a. c < 0x80
     \<Longrightarrow> map ascii_lower a = map ascii_lower p"
  by (induction p a rule: list_all2_induct) (simp_all add: char_matches_ascii)

lemma literal_lower:
  "map ascii_lower a = map ascii_lower p \<Longrightarrow> k b \<Longrightarrow> literal True p k (a @ b)"
  unfolding literal_iff using list_all2_lower by blast

lemma literal_ascii:
  assumes "literal True p k s" and "\<forall>c\<in>set s. c < 0x80"
  obtains a b where "s = a @ b" and "map ascii_lower a = map ascii_lower p" and "k b"
proof -
  from assms(1) obtain a b where s: "s = a @ b" and m: "list_all2 (char_matches True) p a"
    and k: "k b"
    unfolding literal_iff by blast
  have "map ascii_lower a = map ascii_lower p"
    using m assms(2) s by (intro list_all2_ascii) auto
  then show ?thesis using s k that by blast
qed

lemma verilog_alternative:
  "(optional (literal True (str ''s'')) \<circ> literal True (str ''v'')
      \<circ> optional (literal True (str ''h''))) k s
     \<longleftrightarrow> list_ex (\<lambda>ext. literal True ext k s) (map str [''v'', ''vh'', ''sv'', ''svh''])"
  by (cases s rule: list.exhaust; (cases "tl s"; (cases "tl (tl s)")))
     (auto simp: optional_def str_def)

lemma extension_pattern_unfolded:
  "EXTENSION_PATTERN name \<longleftrightarrow>
     dot_star (literal True (str ''.'')
       (\<lambda>t. list_ex (\<lambda>ext. literal True ext at_end t) SUPPORTED_EXTENSIONS)) name"
proof -
  have "alternation
          (map (literal True) EXTENSION_LITERALS @
           [optional (literal True (str ''s'')) \<circ> literal True (str ''v'')
              \<circ> optional (literal True (str ''h''))])
          at_end =
        (\<lambda>t. list_ex (\<lambda>ext. literal True ext at_end t) SUPPORTED_EXTENSIONS)"
  proof
    fix t
    have "SUPPORTED_EXTENSIONS = EXTENSION_LITERALS @ map str [''v'', ''vh'', ''sv'', ''svh'']"
      by (simp add: SUPPORTED_EXTENSIONS_def EXTENSION_LITERALS_def)
    then have "list_ex (\<lambda>ext. literal True ext at_end t) SUPPORTED_EXTENSIONS \<longleftrightarrow>
        list_ex (\<lambda>ext. literal True ext at_end t) EXTENSION_LITERALS
        \<or> list_ex (\<lambda>ext. literal True ext at_end t) (map str [''v'', ''vh'', ''sv'', ''svh''])"
      by (simp only: list_ex_append [symmetric])
    moreover have "alternation
          (map (literal True) EXTENSION_LITERALS @
           [optional (literal True (str ''s'')) \<circ> literal True (str ''v'')
              \<circ> optional (literal True (str ''h''))])
          at_end t \<longleftrightarrow>
        list_ex (\<lambda>ext. literal True ext at_end t) EXTENSION_LITERALS
        \<or> (optional (literal True (str ''s'')) \<circ> literal True (str ''v'')
              \<circ> optional (literal True (str ''h''))) at_end t"
      by (simp add: alternation_def list_ex_iff) blast
    ultimately show "alternation
          (map (literal True) EXTENSION_LITERALS @
           [optional (literal True (str ''s'')) \<circ> literal True (str ''v'')
              \<circ> optional (literal True (str ''h''))])
          at_end t =
        list_ex (\<lambda>ext. literal True ext at_end t) SUPPORTED_EXTENSIONS"
      by (simp only: verilog_alternative)
  qed
  then show ?thesis by (simp add: EXTENSION_PATTERN_def)
qed

lemma supported_extensions_lower:
  "ext \<in> set SUPPORTED_EXTENSIONS \<Longrightarrow> map ascii_lower ext = ext"
proof -
  have "list_all (\<lambda>ext. map ascii_lower ext = ext) SUPPORTED_EXTENSIONS"
    by code_simp
  then show "ext \<in> set SUPPORTED_EXTENSIONS \<Longrightarrow> map ascii_lower ext = ext"
    by (simp add: list_all_iff)
qed

lemma ascii_lower_dot: "map ascii_lower (str ''.'') = str ''.''"
  by (simp add: ascii_lower_def str_def)

text \<open>A name without a newline that ends, up to the case of \<^verbatim>\<open>A\<close> to \<^verbatim>\<open>Z\<close>, in a dot and a
  listed extension is accepted by the pattern.\<close>

lemma supported_extension_accepted:
  assumes "supported_extension name" and "NEWLINE \<notin> set name"
  shows "EXTENSION_PATTERN name"
proof -
  from assms(1) obtain ext where e: "ext \<in> set SUPPORTED_EXTENSIONS"
    and s: "suffix (str ''.'' @ ext) (map ascii_lower name)"
    by (auto simp: supported_extension_def list_ex_iff)
  from s obtain q where "map ascii_lower name = q @ (str ''.'' @ ext)"
    unfolding suffix_def by blast
  then obtain pre post where n: "name = pre @ post"
    and "str ''.'' @ ext = map ascii_lower post"
    by (auto simp: map_eq_append_conv)
  then obtain d a where p: "post = d @ a" and d: "map ascii_lower d = str ''.''"
    and a: "map ascii_lower a = ext"
    by (auto simp: append_eq_map_conv)
  have "literal True ext at_end (a @ [])"
    using a supported_extensions_lower [OF e] by (intro literal_lower) (simp_all add: at_end_def)
  then have "list_ex (\<lambda>ext. literal True ext at_end a) SUPPORTED_EXTENSIONS"
    using e by (auto simp: list_ex_iff)
  then have "literal True (str ''.'')
       (\<lambda>t. list_ex (\<lambda>ext. literal True ext at_end t) SUPPORTED_EXTENSIONS) (d @ a)"
    using d by (intro literal_lower) (simp_all add: ascii_lower_dot)
  moreover have "NEWLINE \<notin> set pre"
    using assms(2) n by simp
  ultimately show ?thesis
    unfolding extension_pattern_unfolded dot_star_iff using n p by blast
qed

text \<open>On names of ASCII characters without a newline the pattern is that suffix match.\<close>

lemma extension_pattern_is_suffix_match:
  assumes "\<forall>c\<in>set name. c < 0x80" and "NEWLINE \<notin> set name"
  shows "EXTENSION_PATTERN name \<longleftrightarrow> supported_extension name"
proof
  assume "EXTENSION_PATTERN name"
  then obtain pre post where n: "name = pre @ post"
    and rest: "literal True (str ''.'')
       (\<lambda>t. list_ex (\<lambda>ext. literal True ext at_end t) SUPPORTED_EXTENSIONS) post"
    unfolding extension_pattern_unfolded dot_star_iff by blast
  have ap: "\<forall>c\<in>set post. c < 0x80" using assms(1) n by simp
  from rest ap obtain d t where p: "post = d @ t"
    and d: "map ascii_lower d = map ascii_lower (str ''.'')"
    and alt: "list_ex (\<lambda>ext. literal True ext at_end t) SUPPORTED_EXTENSIONS"
    by (rule literal_ascii)
  from alt obtain ext where e: "ext \<in> set SUPPORTED_EXTENSIONS" and l: "literal True ext at_end t"
    by (auto simp: list_ex_iff)
  have at: "\<forall>c\<in>set t. c < 0x80" using ap p by simp
  from l at obtain a b where t: "t = a @ b" and a: "map ascii_lower a = map ascii_lower ext"
    and b: "at_end b"
    by (rule literal_ascii)
  have "b = []"
    using b assms(2) n p t by (auto simp: at_end_def)
  moreover have "map ascii_lower a = ext"
    using a supported_extensions_lower [OF e] by simp
  moreover have "map ascii_lower d = str ''.''"
    using d by (simp add: ascii_lower_dot)
  ultimately have "map ascii_lower name = map ascii_lower pre @ (str ''.'' @ ext)"
    using n p t by simp
  then have "suffix (str ''.'' @ ext) (map ascii_lower name)"
    unfolding suffix_def by blast
  then show "supported_extension name"
    using e by (auto simp: supported_extension_def list_ex_iff)
next
  assume "supported_extension name"
  then show "EXTENSION_PATTERN name"
    using assms(2) by (rule supported_extension_accepted)
qed


section \<open>Properties of the reformat orchestrator\<close>

lemma foldl_reformat_step:
  "foldl (reformat_step R F S) st fs =
     st\<lparr>processed := processed st @ map (\<lambda>f. fst (reformat_file R F S f)) fs,
        formatter_calls :=
          formatter_calls st @ concat (map (\<lambda>f. fst (snd (reformat_file R F S f))) fs),
        info_log := info_log st @ concat (map (\<lambda>f. snd (snd (reformat_file R F S f))) fs)\<rparr>"
  by (induction fs arbitrary: st) (simp_all add: reformat_step_def split: prod.splits)

lemma reformat_files_result:
  "reformat_files R F S fs =
     \<lparr>processed = map (\<lambda>f. fst (reformat_file R F S f)) fs,
      formatter_calls = concat (map (\<lambda>f. fst (snd (reformat_file R F S f))) fs),
      info_log = concat (map (\<lambda>f. snd (snd (reformat_file R F S f))) fs)\<rparr>"
  by (simp add: reformat_files_def foldl_reformat_step)

lemma reformat_files_around:
  assumes "reformat_file R F S f = (f', calls, records)"
  shows "processed (reformat_files R F S (pre @ f # post)) =
           processed (reformat_files R F S pre) @ f' # processed (reformat_files R F S post)"
    and "formatter_calls (reformat_files R F S (pre @ f # post)) =
           formatter_calls (reformat_files R F S pre) @ calls
             @ formatter_calls (reformat_files R F S post)"
    and "info_log (reformat_files R F S (pre @ f # post)) =
           info_log (reformat_files R F S pre) @ records
             @ info_log (reformat_files R F S post)"
  using assms by (simp_all add: reformat_files_result)

lemma reformat_file_well_formed:
  assumes "formatted_contents f = None"
  shows "formatted_contents (fst (reformat_file R F S f)) \<noteq> None
     \<longrightarrow> patch_contents (fst (reformat_file R F S f)) \<noteq> None"
  using assms
  by (auto simp: reformat_file_def Let_def split: option.splits if_splits)

lemma reformat_files_well_formed:
  assumes "\<forall>f\<in>set fs. formatted_contents f = None"
  shows "\<forall>g\<in>set (processed (reformat_files R F S fs)).
           formatted_contents g \<noteq> None \<longrightarrow> patch_contents g \<noteq> None"
proof
  fix g
  assume "g \<in> set (processed (reformat_files R F S fs))"
  then obtain f where "f \<in> set fs" and g: "g = fst (reformat_file R F S f)"
    by (auto simp: reformat_files_result)
  then have "formatted_contents f = None"
    using assms by simp
  then show "formatted_contents g \<noteq> None \<longrightarrow> patch_contents g \<noteq> None"
    unfolding g by (rule reformat_file_well_formed)
qed

lemma rejected_file_ignored:
  assumes "\<not> EXTENSION_PATTERN (filename f)"
  shows "reformat_file R F S f = (f, [], [Info_Ignoring (filename f)])"
    and "processed (reformat_files R F S (pre @ f # post)) =
       processed (reformat_files R F S pre) @ f # processed (reformat_files R F S post)"
    and "formatter_calls (reformat_files R F S (pre @ f # post)) =
       formatter_calls (reformat_files R F S pre) @ formatter_calls (reformat_files R F S post)"
proof -
  show one: "reformat_file R F S f = (f, [], [Info_Ignoring (filename f)])"
    using assms by (simp add: reformat_file_def)
  show "processed (reformat_files R F S (pre @ f # post)) =
       processed (reformat_files R F S pre) @ f # processed (reformat_files R F S post)"
    and "formatter_calls (reformat_files R F S (pre @ f # post)) =
       formatter_calls (reformat_files R F S pre) @ formatter_calls (reformat_files R F S post)"
    using reformat_files_around [OF one, of pre post] by simp_all
qed

text \<open>
  Claim C5. The claim takes the allow-list to be the case-insensitive suffix match over
  the listed extensions and says that the formatter is never called for a file outside
  it. The check of line 37 is not that suffix match. The name \<^verbatim>\<open>"x.c\n"\<close> does not end in a
  listed extension, yet \<^verbatim>\<open>$\<close> matches before the final newline; the name \<^verbatim>\<open>"a.\u0130NC"\<close>
  does not end in one either, yet \<^verbatim>\<open>re.IGNORECASE\<close> lets U+0130 match \<^verbatim>\<open>i\<close>. The pattern
  accepts both names, and the formatter is called for both files, with the patch
  contents and the empty list of target ranges.
\<close>

theorem unlisted_names_are_formatted:
  "\<not> supported_extension (filename newline_file)
   \<and> EXTENSION_PATTERN (filename newline_file)
   \<and> formatter_calls
       (reformat_files (\<lambda>contents ranges. None) (\<lambda>r. r) (\<lambda>contents formatted. [])
          [newline_file]) = [([str ''int  x;''], [])]
   \<and> \<not> supported_extension (filename dotted_capital_i_file)
   \<and> EXTENSION_PATTERN (filename dotted_capital_i_file)
   \<and> formatter_calls
       (reformat_files (\<lambda>contents ranges. None) (\<lambda>r. r) (\<lambda>contents formatted. [])
          [dotted_capital_i_file]) = [([str ''int  x;''], [])]"
  by code_simp

text \<open>
  Claim C6. For a file whose patch contents are absent, and for a modified file (base
  contents present) whose patch segments are empty, the iteration returns the file as it
  is, so its formatted contents stay as they were (unset), and makes no call of the
  formatter; in the loop over a change the calls are those of the files before and after
  it.
\<close>

theorem deleted_or_shortened_file_skipped:
  assumes "patch_contents f = None \<or> (base_contents f \<noteq> None \<and> patch_segments f = [])"
  shows "(\<exists>records. reformat_file R F S f = (f, [], records))
   \<and> formatted_contents (fst (reformat_file R F S f)) = formatted_contents f
   \<and> processed (reformat_files R F S (pre @ f # post)) =
       processed (reformat_files R F S pre) @ f # processed (reformat_files R F S post)
   \<and> formatter_calls (reformat_files R F S (pre @ f # post)) =
       formatter_calls (reformat_files R F S pre) @ formatter_calls (reformat_files R F S post)"
proof -
  have "\<exists>records. reformat_file R F S f = (f, [], records)"
    using assms
    by (cases "EXTENSION_PATTERN (filename f)"; cases "patch_contents f")
       (auto simp: reformat_file_def)
  then obtain records where one: "reformat_file R F S f = (f, [], records)"
    by blast
  show ?thesis
    using one reformat_files_around [OF one, of pre post] by simp
qed

theorem deleted_or_shortened_file_skipped_witness:
  "reformat_file (\<lambda>contents ranges. Some contents) (\<lambda>r. r) (\<lambda>contents formatted. [])
       deleted_file = (deleted_file, [], [Info_Skipping_Deleted (str ''old.cpp'')])
   \<and> reformat_file (\<lambda>contents ranges. Some contents) (\<lambda>r. r) (\<lambda>contents formatted. [])
       shortened_file = (shortened_file, [], [Info_Skipping_Only_Deletions (str ''cut.cpp'')])
   \<and> formatted_contents
       (fst (reformat_file (\<lambda>contents ranges. Some contents) (\<lambda>r. r)
          (\<lambda>contents formatted. []) shortened_file)) = None"
proof -
  have d: "patch_contents deleted_file = None
      \<or> (base_contents deleted_file \<noteq> None \<and> patch_segments deleted_file = [])"
    by (simp add: deleted_file_def)
  have s: "patch_contents shortened_file = None
      \<or> (base_contents shortened_file \<noteq> None \<and> patch_segments shortened_file = [])"
    by (simp add: shortened_file_def)
  have dl: "snd (snd (reformat_file (\<lambda>contents ranges. Some contents) (\<lambda>r. r)
          (\<lambda>contents formatted. []) deleted_file)) = [Info_Skipping_Deleted (str ''old.cpp'')]"
    by code_simp
  have sl: "snd (snd (reformat_file (\<lambda>contents ranges. Some contents) (\<lambda>r. r)
          (\<lambda>contents formatted. []) shortened_file)) = [Info_Skipping_Only_Deletions (str ''cut.cpp'')]"
    by code_simp
  have n: "formatted_contents shortened_file = None"
    by (simp add: shortened_file_def)
  show ?thesis
    using dl sl n
      deleted_or_shortened_file_skipped [OF d, of "\<lambda>contents ranges. Some contents" "\<lambda>r. r"
        "\<lambda>contents formatted. []" "[]" "[]"]
      deleted_or_shortened_file_skipped [OF s, of "\<lambda>contents ranges. Some contents" "\<lambda>r. r"
        "\<lambda>contents formatted. []" "[]" "[]"]
    by auto
qed





end
